theory Spec2Isabelle
  imports Main
begin

section \<open>Cards, ranks and suits\<close>

text \<open>
  Modelled from the spec: the Card, Rank and Suit types are the external collaborator of
  hand.go and their declarations are not among the sources. hand.go fixes this much: a
  Rank and a Suit are string types (\<^verbatim>\<open>Rank(s)\<close>, \<^verbatim>\<open>string(c.Rank())\<close>), the rank
  constants \<^verbatim>\<open>Ace\<close>, \<^verbatim>\<open>Five\<close>, \<^verbatim>\<open>Four\<close>, \<^verbatim>\<open>Three\<close>, \<^verbatim>\<open>Two\<close> exist, and the padding
  cards of \<^verbatim>\<open>formCards\<close> carry the rank and suit text \<^verbatim>\<open>"?1"\<close>, \<^verbatim>\<open>"?2"\<close>, ... The spec
  (section 3) gives thirteen ranks. A rank is therefore one of the thirteen constants or
  the text \<^verbatim>\<open>"?n"\<close>, written \<open>BlankRank n\<close>; likewise for suits. Cards are values:
  the \<^verbatim>\<open>*Card\<close> pointers of the source are taken to be non-nil, except the ones
  \<^verbatim>\<open>UnmarshalJSON\<close> decodes, which are \<open>card option\<close>.
\<close>

datatype rank =
  Two | Three | Four | Five | Six | Seven | Eight | Nine | Ten | Jack | Queen | King | Ace
  | BlankRank nat

datatype suit = Spades | Hearts | Diamonds | Clubs | BlankSuit nat

datatype card = Card (Rank: rank) (Suit: suit)

text \<open>
  Modelled from the spec: \<^verbatim>\<open>allRanks()\<close> is not among the sources; the thirteen ranks
  (section 3).
\<close>

definition allRanks :: "rank list" where
  "allRanks = [Two, Three, Four, Five, Six, Seven, Eight, Nine, Ten, Jack, Queen, King, Ace]"

text \<open>
  Modelled from the spec: \<^verbatim>\<open>Rank.IndexOf\<close> is not among the sources. It is the ace-high
  index of section 3 (A > K > ... > 2). That it is the ace-high one is forced by hand.go
  itself: \<^verbatim>\<open>royalFlush\<close> asks for \<^verbatim>\<open>cards[0].Rank() == Ace\<close> together with
  \<^verbatim>\<open>hasStraight\<close>, whose loop wants \<^verbatim>\<open>lastIndex == index+1\<close> from the first card on, so
  Ace has to sit one above another rank. The method takes no argument, so the index
  cannot follow \<^verbatim>\<open>Options.AceIsLow\<close>. A blank rank is none of the thirteen and gets -1.
\<close>

fun IndexOf :: "rank \<Rightarrow> int" where
  "IndexOf Two = 0"
| "IndexOf Three = 1"
| "IndexOf Four = 2"
| "IndexOf Five = 3"
| "IndexOf Six = 4"
| "IndexOf Seven = 5"
| "IndexOf Eight = 6"
| "IndexOf Nine = 7"
| "IndexOf Ten = 8"
| "IndexOf Jack = 9"
| "IndexOf Queen = 10"
| "IndexOf King = 11"
| "IndexOf Ace = 12"
| "IndexOf (BlankRank n) = - 1"

text \<open>
  Modelled from the spec: the ace-low index behind \<^verbatim>\<open>byAceLow\<close> and \<^verbatim>\<open>byAceLowRank\<close>
  (not among the sources), section 3: K > ... > 2 > A.
\<close>

fun aceLowIndexOf :: "rank \<Rightarrow> int" where
  "aceLowIndexOf Ace = 0"
| "aceLowIndexOf (BlankRank n) = - 1"
| "aceLowIndexOf r = IndexOf r + 1"

text \<open>
  Modelled from the spec: the display names of the ranks (\<^verbatim>\<open>singularName\<close>,
  \<^verbatim>\<open>pluralName\<close>) are not among the sources. Section 8 has "straight five high" and
  "pair of aces", the comment on \<^verbatim>\<open>Description\<close> has "full house kings full of sixes".
  A blank rank has no name.
\<close>

fun singularName :: "rank \<Rightarrow> string" where
  "singularName Two = ''two''"
| "singularName Three = ''three''"
| "singularName Four = ''four''"
| "singularName Five = ''five''"
| "singularName Six = ''six''"
| "singularName Seven = ''seven''"
| "singularName Eight = ''eight''"
| "singularName Nine = ''nine''"
| "singularName Ten = ''ten''"
| "singularName Jack = ''jack''"
| "singularName Queen = ''queen''"
| "singularName King = ''king''"
| "singularName Ace = ''ace''"
| "singularName (BlankRank n) = ''''"

fun pluralName :: "rank \<Rightarrow> string" where
  "pluralName Six = ''sixes''"
| "pluralName (BlankRank n) = ''''"
| "pluralName r = singularName r @ ''s''"

text \<open>
  \<^verbatim>\<open>strings.Contains(string(c.Rank()), "?")\<close>: of the ranks above, the blank ones are those
  whose text holds a question mark.
\<close>

fun isBlankRank :: "rank \<Rightarrow> bool" where
  "isBlankRank (BlankRank n) = True"
| "isBlankRank r = False"

text \<open>The padding card number \<open>n\<close> of \<^verbatim>\<open>formCards\<close>: rank and suit are both \<^verbatim>\<open>"?n"\<close>.\<close>

definition blankCard :: "nat \<Rightarrow> card" where
  "blankCard n = Card (BlankRank n) (BlankSuit n)"

section \<open>Rankings, hands and options\<close>

text \<open>
  The ten values of \<^verbatim>\<open>Ranking\<close>, in the order of the \<^verbatim>\<open>iota\<close> block; \<open>rankingInt\<close> is
  the conversion \<^verbatim>\<open>int(r)\<close>. The source's \<^verbatim>\<open>Pair\<close> is written \<open>PairR\<close>: HOL's
  pairing constructor has the name.
\<close>

datatype Ranking =
  HighCard | PairR | TwoPair | ThreeOfAKind | Straight | Flush | FullHouse | FourOfAKind
  | StraightFlush | RoyalFlush

fun rankingInt :: "Ranking \<Rightarrow> int" where
  "rankingInt HighCard = 0"
| "rankingInt PairR = 1"
| "rankingInt TwoPair = 2"
| "rankingInt ThreeOfAKind = 3"
| "rankingInt Straight = 4"
| "rankingInt Flush = 5"
| "rankingInt FullHouse = 6"
| "rankingInt FourOfAKind = 7"
| "rankingInt StraightFlush = 8"
| "rankingInt RoyalFlush = 9"

text \<open>
  A \<^verbatim>\<open>Hand\<close>; the selectors are the accessor methods \<^verbatim>\<open>Ranking()\<close>, \<^verbatim>\<open>Cards()\<close> and
  \<^verbatim>\<open>Description()\<close>.
\<close>

datatype Hand = Hand (Ranking: Ranking) (Cards: "card list") (Description: string)

datatype HandSorting = High | Low

record Options =
  Sorting :: HandSorting
  IgnoreStraights :: bool
  IgnoreFlushes :: bool
  AceIsLow :: bool

text \<open>The zero value \<^verbatim>\<open>Options{}\<close>, used by \<^verbatim>\<open>NewHand\<close>.\<close>

definition defaultOptions :: Options where
  "defaultOptions =
     \<lparr>Sorting = High, IgnoreStraights = False, IgnoreFlushes = False, AceIsLow = False\<rparr>"

section \<open>Panics\<close>

text \<open>
  The ways hand.go stops: an index outside a slice, the explicit
  \<^verbatim>\<open>panic("should never get here")\<close> of \<^verbatim>\<open>handForFiveCards\<close>, and a method called on a
  nil \<^verbatim>\<open>*Card\<close> (which only \<^verbatim>\<open>UnmarshalJSON\<close> can meet here: everywhere else the cards
  are values). A function that can panic returns \<open>panic + 'a\<close>, with \<open>Inl\<close> for the
  panic.
\<close>

datatype panic = IndexOutOfRange | ShouldNeverGetHere | NilDereference

definition andThen :: "'e + 'a \<Rightarrow> ('a \<Rightarrow> 'e + 'b) \<Rightarrow> 'e + 'b" where
  "andThen m f = (case m of Inl e \<Rightarrow> Inl e | Inr x \<Rightarrow> f x)"

text \<open>\<^verbatim>\<open>cards[i]\<close>.\<close>

definition cardAt :: "'a list \<Rightarrow> nat \<Rightarrow> panic + 'a" where
  "cardAt cards i = (if i < length cards then Inr (cards ! i) else Inl IndexOutOfRange)"

text \<open>\<^verbatim>\<open>cards[i].Rank() == r\<close>.\<close>

definition rankIs :: "card list \<Rightarrow> nat \<Rightarrow> rank \<Rightarrow> panic + bool" where
  "rankIs cards i r = andThen (cardAt cards i) (\<lambda>c. Inr (Rank c = r))"

text \<open>Go's \<^verbatim>\<open>&&\<close>: the right operand is evaluated only when the left one is true.\<close>

definition andAlso :: "panic + bool \<Rightarrow> panic + bool \<Rightarrow> panic + bool" where
  "andAlso a b = andThen a (\<lambda>x. if x then b else Inr False)"

section \<open>Predicate primitives\<close>

definition cardsForRank :: "card list \<Rightarrow> rank \<Rightarrow> card list" where
  "cardsForRank cards r = filter (\<lambda>c. Rank c = r) cards"

definition hasBlankCards :: "card list \<Rightarrow> bool" where
  "hasBlankCards cards = list_ex (\<lambda>c. isBlankRank (Rank c)) cards"

text \<open>
  \<^verbatim>\<open>hasPairs\<close>: the loop over \<open>i = 0, ..., 4\<close>, which returns false at the first
  position whose count differs.
\<close>

fun hasPairsLoop :: "card list \<Rightarrow> nat list \<Rightarrow> nat list \<Rightarrow> panic + bool" where
  "hasPairsLoop cards pairNums [] = Inr True"
| "hasPairsLoop cards pairNums (i # js) =
     andThen (cardAt cards i) (\<lambda>card.
     andThen (cardAt pairNums i) (\<lambda>num.
       if num \<noteq> length (cardsForRank cards (Rank card)) then Inr False
       else hasPairsLoop cards pairNums js))"

definition hasPairs :: "card list \<Rightarrow> nat list \<Rightarrow> panic + bool" where
  "hasPairs cards pairNums = hasPairsLoop cards pairNums [0, 1, 2, 3, 4]"

definition hasFlush :: "card list \<Rightarrow> panic + bool" where
  "hasFlush cards =
     (if hasBlankCards cards then Inr False
      else andThen (cardAt cards 0) (\<lambda>c0.
        Inr (fold (\<lambda>c has. has \<and> Suit c = Suit c0) cards True)))"

definition hasLowStraight :: "card list \<Rightarrow> panic + bool" where
  "hasLowStraight cards =
     andAlso (rankIs cards 0 Five)
    (andAlso (rankIs cards 1 Four)
    (andAlso (rankIs cards 2 Three)
    (andAlso (rankIs cards 3 Two)
             (rankIs cards 4 Ace))))"

fun straightLoop :: "card list \<Rightarrow> nat list \<Rightarrow> int \<Rightarrow> bool \<Rightarrow> panic + bool" where
  "straightLoop cards [] lastIndex straight = Inr straight"
| "straightLoop cards (i # js) lastIndex straight =
     andThen (cardAt cards i) (\<lambda>c.
       let index = IndexOf (Rank c)
       in straightLoop cards js index (straight \<and> lastIndex = index + 1))"

definition hasStraight :: "card list \<Rightarrow> panic + bool" where
  "hasStraight cards =
     (if hasBlankCards cards then Inr False
      else andThen (cardAt cards 0) (\<lambda>c0.
           andThen (straightLoop cards [1, 2, 3, 4] (IndexOf (Rank c0)) True) (\<lambda>straight.
             if straight then Inr True else hasLowStraight cards)))"

section \<open>The canonicalizer\<close>

definition formLowStraight :: "card list \<Rightarrow> panic + card list" where
  "formLowStraight cards =
     andThen
       (andAlso (rankIs cards 0 Ace)
       (andAlso (rankIs cards 1 Five)
       (andAlso (rankIs cards 2 Four)
       (andAlso (rankIs cards 3 Three)
                (rankIs cards 4 Two)))))
       (\<lambda>has. if has then Inr [cards ! 1, cards ! 2, cards ! 3, cards ! 4, cards ! 0]
               else Inr cards)"

text \<open>
  Modelled from the spec: the orderings \<^verbatim>\<open>byAceHigh\<close>, \<^verbatim>\<open>byAceLow\<close>, \<^verbatim>\<open>byAceHighRank\<close>
  and \<^verbatim>\<open>byAceLowRank\<close> are not among the sources; section 4.2, step 1: "sort cards by
  rank descending under the active ace ordering". \<^verbatim>\<open>sort.Sort(sort.Reverse(...))\<close> is
  the library's sort, here an insertion sort by descending index that keeps cards of
  one rank in the order of the input. The library does not promise an order among cards
  of one rank; \<^verbatim>\<open>formCards\<close> reads the sorted cards only through \<^verbatim>\<open>cardsForRank\<close>, so
  only the order of the suits inside one rank depends on it.
\<close>

fun insertDesc :: "('a \<Rightarrow> int) \<Rightarrow> 'a \<Rightarrow> 'a list \<Rightarrow> 'a list" where
  "insertDesc key x [] = [x]"
| "insertDesc key x (y # ys) =
     (if key x < key y then y # insertDesc key x ys else x # y # ys)"

definition sortDesc :: "('a \<Rightarrow> int) \<Rightarrow> 'a list \<Rightarrow> 'a list" where
  "sortDesc key xs = foldr (insertDesc key) xs []"

text \<open>The two nested loops of \<^verbatim>\<open>formCards\<close>: \<open>i = 4, ..., 1\<close> outside, the ranks inside.\<close>

definition formedFor :: "card list \<Rightarrow> rank list \<Rightarrow> nat \<Rightarrow> card list" where
  "formedFor cards ranks i =
     concat (map (\<lambda>r. let rCards = cardsForRank cards r
                       in if length rCards = i then rCards else []) ranks)"

definition formed :: "card list \<Rightarrow> rank list \<Rightarrow> card list" where
  "formed cards ranks = concat (map (formedFor cards ranks) [4, 3, 2, 1])"

text \<open>The padding loop: \<open>dif\<close> blank cards, numbered from 1.\<close>

definition blanks :: "nat \<Rightarrow> card list" where
  "blanks dif = map (\<lambda>i. blankCard (i + 1)) [0..<dif]"

definition formCards :: "card list \<Rightarrow> Options \<Rightarrow> panic + card list" where
  "formCards cards opts =
     (let key = (if AceIsLow opts then aceLowIndexOf else IndexOf);
          sorted = sortDesc (\<lambda>c. key (Rank c)) cards;
          ranks = sortDesc key allRanks;
          formed = formed sorted ranks;
          dif = 5 - length formed
      in formLowStraight (formed @ blanks dif))"

section \<open>The ranking classifiers\<close>

datatype ranking =
  MkRanking (rankingOf: Ranking)
            (vFunc: "card list \<Rightarrow> Options \<Rightarrow> panic + bool")
            (dFunc: "card list \<Rightarrow> panic + string")

text \<open>\<^verbatim>\<open>cards[i].Rank()\<close>.\<close>

definition rankAt :: "card list \<Rightarrow> nat \<Rightarrow> panic + rank" where
  "rankAt cards i = andThen (cardAt cards i) (\<lambda>c. Inr (Rank c))"

definition highCard :: ranking where
  "highCard = MkRanking HighCard
     (\<lambda>cards opts.
        andThen (hasFlush cards) (\<lambda>flush.
        andThen (hasStraight cards) (\<lambda>straight.
        andThen (hasPairs cards [1, 1, 1, 1, 1]) (\<lambda>pairs.
          let pairs = (if \<not> IgnoreStraights opts then pairs \<and> \<not> straight else pairs);
              pairs = (if \<not> IgnoreFlushes opts then pairs \<and> \<not> flush else pairs)
          in Inr pairs))))
     (\<lambda>cards. andThen (rankAt cards 0) (\<lambda>r.
        Inr (''high card '' @ singularName r @ '' high'')))"

definition pair :: ranking where
  "pair = MkRanking PairR
     (\<lambda>cards opts. hasPairs cards [2, 2, 1, 1, 1])
     (\<lambda>cards. andThen (rankAt cards 0) (\<lambda>r. Inr (''pair of '' @ pluralName r)))"

definition twoPair :: ranking where
  "twoPair = MkRanking TwoPair
     (\<lambda>cards opts. hasPairs cards [2, 2, 2, 2, 1])
     (\<lambda>cards. andThen (rankAt cards 0) (\<lambda>r1. andThen (rankAt cards 2) (\<lambda>r2.
        Inr (''two pair '' @ pluralName r1 @ '' and '' @ pluralName r2))))"

definition threeOfAKind :: ranking where
  "threeOfAKind = MkRanking ThreeOfAKind
     (\<lambda>cards opts. hasPairs cards [3, 3, 3, 1, 1])
     (\<lambda>cards. andThen (rankAt cards 0) (\<lambda>r. Inr (''three of a kind '' @ pluralName r)))"

definition straight :: ranking where
  "straight = MkRanking Straight
     (\<lambda>cards opts.
        if IgnoreStraights opts then Inr False
        else andThen (hasFlush cards) (\<lambda>flush.
             andThen (hasStraight cards) (\<lambda>straight.
               Inr (\<not> flush \<and> straight))))
     (\<lambda>cards. andThen (rankAt cards 0) (\<lambda>r.
        Inr (''straight '' @ singularName r @ '' high'')))"

definition flush :: ranking where
  "flush = MkRanking Flush
     (\<lambda>cards opts.
        if IgnoreFlushes opts then Inr False
        else andThen (hasFlush cards) (\<lambda>flush.
             andThen (hasStraight cards) (\<lambda>straight.
               Inr (flush \<and> \<not> straight))))
     (\<lambda>cards. andThen (rankAt cards 0) (\<lambda>r1.
        Inr (''flush '' @ singularName r1 @ '' high'')))"

definition fullHouse :: ranking where
  "fullHouse = MkRanking FullHouse
     (\<lambda>cards opts. hasPairs cards [3, 3, 3, 2, 2])
     (\<lambda>cards. andThen (rankAt cards 0) (\<lambda>r1. andThen (rankAt cards 3) (\<lambda>r2.
        Inr (''full house '' @ pluralName r1 @ '' full of '' @ pluralName r2))))"

definition fourOfAKind :: ranking where
  "fourOfAKind = MkRanking FourOfAKind
     (\<lambda>cards opts. hasPairs cards [4, 4, 4, 4, 1])
     (\<lambda>cards. andThen (rankAt cards 0) (\<lambda>r. Inr (''four of a kind '' @ pluralName r)))"

definition straightFlush :: ranking where
  "straightFlush = MkRanking StraightFlush
     (\<lambda>cards opts.
        if IgnoreStraights opts \<or> IgnoreFlushes opts then Inr False
        else andThen (hasFlush cards) (\<lambda>flush.
             andThen (hasStraight cards) (\<lambda>straight.
             andThen (rankAt cards 0) (\<lambda>r0.
               Inr (r0 \<noteq> Ace \<and> flush \<and> straight)))))
     (\<lambda>cards. andThen (rankAt cards 0) (\<lambda>r.
        Inr (''straight flush '' @ singularName r @ '' high'')))"

definition royalFlush :: ranking where
  "royalFlush = MkRanking RoyalFlush
     (\<lambda>cards opts.
        if IgnoreStraights opts \<or> IgnoreFlushes opts then Inr False
        else andThen (hasFlush cards) (\<lambda>flush.
             andThen (hasStraight cards) (\<lambda>straight.
             andThen (rankAt cards 0) (\<lambda>r0.
               Inr (r0 = Ace \<and> flush \<and> straight)))))
     (\<lambda>cards. Inr ''royal flush'')"

definition rankings :: "ranking list" where
  "rankings = [highCard, pair, twoPair, threeOfAKind, straight, flush, fullHouse,
               fourOfAKind, straightFlush, royalFlush]"

text \<open>
  The loop of \<^verbatim>\<open>handForFiveCards\<close> over \<^verbatim>\<open>rankings\<close>: the first entry whose predicate
  holds makes the hand; past the last entry stands the panic.
\<close>

fun firstRanking :: "ranking list \<Rightarrow> card list \<Rightarrow> Options \<Rightarrow> panic + Hand" where
  "firstRanking [] cards opts = Inl ShouldNeverGetHere"
| "firstRanking (r # rs) cards opts =
     andThen (vFunc r cards opts) (\<lambda>ok.
       if ok then andThen (dFunc r cards) (\<lambda>d. Inr (Hand (rankingOf r) cards d))
       else firstRanking rs cards opts)"

definition handForFiveCards :: "card list \<Rightarrow> Options \<Rightarrow> panic + Hand" where
  "handForFiveCards cards opts =
     andThen (formCards cards opts) (\<lambda>cards. firstRanking rankings cards opts)"

section \<open>The combination generator\<close>

text \<open>
  Modelled from the spec: \<^verbatim>\<open>combinations(n, k)\<close> is not among the sources; section 4.1:
  every distinct subset of size \<open>k\<close> of the indices \<open>0, ..., n - 1\<close>, each subset in
  ascending order, the subsets in lexicographic order, none twice. The spec asks for
  \<open>n \<ge> 1\<close>; the theorems on the claims are stated for non-empty inputs.
\<close>

fun combsOf :: "'a list \<Rightarrow> nat \<Rightarrow> 'a list list" where
  "combsOf xs 0 = [[]]"
| "combsOf [] (Suc k) = []"
| "combsOf (x # xs) (Suc k) = map ((#) x) (combsOf xs k) @ combsOf xs (Suc k)"

definition combinations :: "nat \<Rightarrow> nat \<Rightarrow> nat list list" where
  "combinations n k = combsOf [0..<n] k"

text \<open>
  \<^verbatim>\<open>cardCombos\<close>. The indices of a combination are below \<open>length cards\<close> (lemma
  \<open>combinations_in_range\<close> below), so \<^verbatim>\<open>cards[i]\<close> is always inside the slice.
\<close>

definition cardCombos :: "card list \<Rightarrow> card list list" where
  "cardCombos cards =
     (let l = (if length cards < 5 then length cards else 5);
          indexCombos = combinations (length cards) l
      in map (\<lambda>combo. map (\<lambda>i. cards ! i) combo) indexCombos)"

section \<open>The comparator\<close>

text \<open>
  \<^verbatim>\<open>CompareTo\<close>. The results are differences of rankings (0 to 9) and of rank indices
  (-1 to 12), far from the bounds of Go's \<^verbatim>\<open>int\<close>, so they are modelled in \<open>int\<close>.
\<close>

fun compareLoop :: "card list \<Rightarrow> card list \<Rightarrow> nat list \<Rightarrow> panic + int" where
  "compareLoop hCards oCards [] = Inr 0"
| "compareLoop hCards oCards (i # js) =
     andThen (cardAt hCards i) (\<lambda>hCard.
     andThen (cardAt oCards i) (\<lambda>oCard.
       let hIndex = IndexOf (Rank hCard); oIndex = IndexOf (Rank oCard)
       in if hIndex \<noteq> oIndex then Inr (hIndex - oIndex)
          else compareLoop hCards oCards js))"

definition CompareTo :: "Hand \<Rightarrow> Hand \<Rightarrow> panic + int" where
  "CompareTo h other =
     (if Ranking h \<noteq> Ranking other
      then Inr (rankingInt (Ranking h) - rankingInt (Ranking other))
      else compareLoop (Cards h) (Cards other) [0, 1, 2, 3, 4])"

text \<open>\<^verbatim>\<open>ByHighHand.Less\<close>, on two hands.\<close>

definition Less :: "Hand \<Rightarrow> Hand \<Rightarrow> panic + bool" where
  "Less iHand jHand = andThen (CompareTo iHand jHand) (\<lambda>n. Inr (n < 0))"

section \<open>The hand selector\<close>

text \<open>
  \<^verbatim>\<open>sort.Sort(ByHighHand(hands))\<close> is the library's sort under \<^verbatim>\<open>Less\<close>, ascending;
  here an insertion sort that keeps hands of equal value in the order of the
  combinations. The library does not promise which of several hands of equal value comes
  last; the theorems on the selected hand speak of its value only.
\<close>

fun insertHand :: "Hand \<Rightarrow> Hand list \<Rightarrow> panic + Hand list" where
  "insertHand h [] = Inr [h]"
| "insertHand h (x # xs) =
     andThen (Less x h) (\<lambda>lt.
       if lt then andThen (insertHand h xs) (\<lambda>ys. Inr (x # ys))
       else Inr (h # x # xs))"

fun sortHands :: "Hand list \<Rightarrow> panic + Hand list" where
  "sortHands [] = Inr []"
| "sortHands (h # hs) = andThen (sortHands hs) (insertHand h)"

text \<open>The first loop of \<^verbatim>\<open>NewHandWithOptions\<close>: one hand for each combination.\<close>

fun handsFor :: "card list list \<Rightarrow> Options \<Rightarrow> panic + Hand list" where
  "handsFor [] opts = Inr []"
| "handsFor (c # combos) opts =
     andThen (handForFiveCards c opts) (\<lambda>hand.
     andThen (handsFor combos opts) (\<lambda>hands. Inr (hand # hands)))"

text \<open>
  \<^verbatim>\<open>NewHandWithOptions\<close>. With no hand at all, \<^verbatim>\<open>index\<close> is \<open>-1\<close> (or \<open>0\<close> for
  \<^verbatim>\<open>Low\<close>) and \<^verbatim>\<open>hands[index]\<close> is outside the slice.
\<close>

definition NewHandWithOptions :: "card list \<Rightarrow> Options \<Rightarrow> panic + Hand" where
  "NewHandWithOptions cards opts =
     andThen (handsFor (cardCombos cards) opts) (\<lambda>hands.
     andThen (sortHands hands) (\<lambda>sorted.
       let index = (if Sorting opts = Low then 0 else int (length hands) - 1)
       in if 0 \<le> index then cardAt sorted (nat index) else Inl IndexOutOfRange))"

definition NewHand :: "card list \<Rightarrow> panic + Hand" where
  "NewHand cards = NewHandWithOptions cards defaultOptions"

section \<open>Reading a hand from JSON\<close>

text \<open>
  \<^verbatim>\<open>json.Unmarshal(b, m)\<close> is the library's decoder, not code of hand.go. It is modelled
  from the documentation of \<^verbatim>\<open>encoding/json\<close>, as far as the target of the call needs
  it: a pointer to \<^verbatim>\<open>handJSON\<close>, a struct with the one field \<^verbatim>\<open>Cards []*Card\<close>.
  The bytes \<^verbatim>\<open>b\<close> are given by what they parse to: \<open>None\<close> for bytes that are not JSON
  (a syntax error), \<open>Some v\<close> for the text of the JSON value \<open>v\<close>. A number is kept as
  its text.
\<close>

datatype json =
  JNull | JBool bool | JNumber string | JString string | JArray "json list"
  | JObject "(string \<times> json) list"

text \<open>
  The errors of \<^verbatim>\<open>json.Unmarshal\<close>: the bytes are not JSON, or the value does not fit the
  target (a type error of the library, or an error of the decoder of \<^verbatim>\<open>Card\<close>). Which
  error value the library returns of several is left open; \<^verbatim>\<open>UnmarshalJSON\<close> only hands
  it on.
\<close>

datatype jsonError = SyntaxError | UnmarshalError

text \<open>
  The elements of a JSON array, decoded into \<^verbatim>\<open>[]*Card\<close>: \<^verbatim>\<open>null\<close> gives a nil pointer
  (\<open>None\<close>); any other value gives a pointer to a new \<^verbatim>\<open>Card\<close> filled by the decoder of
  \<^verbatim>\<open>Card\<close>, which is not among the sources and is the parameter \<open>cardOf\<close>.
\<close>

fun decodeElements :: "(json \<Rightarrow> 'e + card) \<Rightarrow> json list \<Rightarrow> jsonError + card option list" where
  "decodeElements cardOf [] = Inr []"
| "decodeElements cardOf (v # vs) =
     andThen (case v of
                JNull \<Rightarrow> Inr None
              | _ \<Rightarrow> (case cardOf v of Inl e \<Rightarrow> Inl UnmarshalError | Inr c \<Rightarrow> Inr (Some c)))
       (\<lambda>p. andThen (decodeElements cardOf vs) (\<lambda>ps. Inr (p # ps)))"

text \<open>
  A JSON value decoded into the field \<^verbatim>\<open>Cards\<close>: \<^verbatim>\<open>null\<close> sets the slice to nil, an array
  replaces it by its elements, any other value is a type error.
\<close>

definition decodeCards :: "(json \<Rightarrow> 'e + card) \<Rightarrow> json \<Rightarrow> jsonError + card option list" where
  "decodeCards cardOf v =
     (case v of
        JNull \<Rightarrow> Inr []
      | JArray vs \<Rightarrow> decodeElements cardOf vs
      | _ \<Rightarrow> Inl UnmarshalError)"

text \<open>
  The members of a JSON object, in their order: a member whose key the library matches
  with the field \<^verbatim>\<open>Cards\<close> is decoded into it, the others are skipped. The matching of
  keys (the field name, up to the case of the letters) is the parameter \<open>keyIsCards\<close>.
\<close>

fun decodeMembers ::
  "(string \<Rightarrow> bool) \<Rightarrow> (json \<Rightarrow> 'e + card) \<Rightarrow> (string \<times> json) list \<Rightarrow> card option list \<Rightarrow>
   jsonError + card option list" where
  "decodeMembers keyIsCards cardOf [] mCards = Inr mCards"
| "decodeMembers keyIsCards cardOf ((k, v) # kvs) mCards =
     (if keyIsCards k
      then andThen (decodeCards cardOf v) (decodeMembers keyIsCards cardOf kvs)
      else decodeMembers keyIsCards cardOf kvs mCards)"

text \<open>
  \<^verbatim>\<open>json.Unmarshal(b, m)\<close> with \<^verbatim>\<open>m := &handJSON{}\<close>: an error, or \<^verbatim>\<open>m.Cards\<close> after the
  call. \<^verbatim>\<open>null\<close> leaves the struct as it is, an object is decoded member by member, and
  every other JSON value (an array, a string, a number, a boolean) is a type error.
\<close>

definition jsonUnmarshal ::
  "(string \<Rightarrow> bool) \<Rightarrow> (json \<Rightarrow> 'e + card) \<Rightarrow> json option \<Rightarrow> jsonError + card option list" where
  "jsonUnmarshal keyIsCards cardOf b =
     (case b of
        None \<Rightarrow> Inl SyntaxError
      | Some v \<Rightarrow>
          (case v of
             JNull \<Rightarrow> Inr []
           | JObject kvs \<Rightarrow> decodeMembers keyIsCards cardOf kvs []
           | _ \<Rightarrow> Inl UnmarshalError))"

text \<open>
  The cards behind the pointers of \<^verbatim>\<open>m.Cards\<close>. \<^verbatim>\<open>NewHand\<close> reads every card of its
  input through \<^verbatim>\<open>c.Rank()\<close> (in \<^verbatim>\<open>cardsForRank\<close>, for each combination, and every card is
  in one), so a nil pointer among them ends the call in a panic; under the default
  options \<^verbatim>\<open>NewHand\<close> has no other panic that could come first (lemma \<open>NewHand_total\<close>).
\<close>

fun pointees :: "card option list \<Rightarrow> panic + card list" where
  "pointees [] = Inr []"
| "pointees (None # ps) = Inl NilDereference"
| "pointees (Some c # ps) = andThen (pointees ps) (\<lambda>cs. Inr (c # cs))"

text \<open>
  \<^verbatim>\<open>UnmarshalJSON\<close>. The hands live in a store, a list whose positions are the addresses;
  the receiver \<^verbatim>\<open>h\<close> is an address, passed by value. \<^verbatim>\<open>NewHand\<close> returns the address of
  a new hand, put at the end of the store (the hands of the other combinations, which
  nothing points to once \<^verbatim>\<open>NewHand\<close> has returned, are left out), and
  \<^verbatim>\<open>h = NewHand(m.Cards)\<close> sets the method's own \<^verbatim>\<open>h\<close> to it. The result is the store
  after the call, the method's \<^verbatim>\<open>h\<close> at the return, and the returned \<^verbatim>\<open>error\<close>
  (\<open>None\<close> for \<^verbatim>\<open>nil\<close>). The caller keeps the address it passed.
\<close>

definition UnmarshalJSON ::
  "(string \<Rightarrow> bool) \<Rightarrow> (json \<Rightarrow> 'e + card) \<Rightarrow> Hand list \<Rightarrow> nat \<Rightarrow> json option \<Rightarrow>
   panic + (Hand list \<times> nat \<times> jsonError option)" where
  "UnmarshalJSON keyIsCards cardOf store h b =
     (case jsonUnmarshal keyIsCards cardOf b of
        Inl err \<Rightarrow> Inr (store, h, Some err)
      | Inr mCards \<Rightarrow>
          andThen (pointees mCards) (\<lambda>cards.
          andThen (NewHand cards) (\<lambda>hand.
            let new = length store;
                store = store @ [hand];
                h = new
            in Inr (store, h, None))))"

section \<open>Notions used in the statements\<close>

text \<open>
  The comparison of section 4.6, in the spec's words: the categories are compared
  numerically and the larger one wins outright; on equal categories the five cards are
  compared position by position by rank index, and the first position that differs
  decides. The rank index is the parameter \<open>index\<close>; the sign of the result is the verdict.
\<close>

fun firstDifference :: "int list \<Rightarrow> int list \<Rightarrow> int" where
  "firstDifference (x # xs) (y # ys) = (if x \<noteq> y then x - y else firstDifference xs ys)"
| "firstDifference xs ys = 0"

definition indices :: "(rank \<Rightarrow> int) \<Rightarrow> Hand \<Rightarrow> int list" where
  "indices index h = map (\<lambda>c. index (Rank c)) (take 5 (Cards h))"

definition specCompare :: "(rank \<Rightarrow> int) \<Rightarrow> Hand \<Rightarrow> Hand \<Rightarrow> int" where
  "specCompare index h other =
     (if rankingInt (Ranking h) \<noteq> rankingInt (Ranking other)
      then rankingInt (Ranking h) - rankingInt (Ranking other)
      else firstDifference (indices index h) (indices index other))"

text \<open>
  The pair signature of five cards: at each position, how many of the cards share the
  rank found there. \<^verbatim>\<open>hasPairs(cards, pairNums)\<close> asks whether it is \<open>pairNums\<close>.
  \<open>signatures\<close> are the six lists the classifiers ask for.
\<close>

definition signature :: "card list \<Rightarrow> nat list" where
  "signature cards = map (\<lambda>c. length (cardsForRank cards (Rank c))) cards"

definition signatures :: "nat list list" where
  "signatures = [[1, 1, 1, 1, 1], [2, 2, 1, 1, 1], [2, 2, 2, 2, 1], [3, 3, 3, 1, 1],
                 [3, 3, 3, 2, 2], [4, 4, 4, 4, 1]]"

text \<open>The rank index \<^verbatim>\<open>formCards\<close> sorts by under the given options.\<close>

definition activeIndex :: "Options \<Rightarrow> rank \<Rightarrow> int" where
  "activeIndex opts = (if AceIsLow opts then aceLowIndexOf else IndexOf)"

text \<open>What \<^verbatim>\<open>formCards\<close> hands to \<^verbatim>\<open>formLowStraight\<close>: the formed cards and the padding.\<close>

definition paddedCards :: "card list \<Rightarrow> Options \<Rightarrow> card list" where
  "paddedCards cards opts =
     (let key = (if AceIsLow opts then aceLowIndexOf else IndexOf);
          sorted = sortDesc (\<lambda>c. key (Rank c)) cards;
          ranks = sortDesc key allRanks;
          formed = formed sorted ranks
      in formed @ blanks (5 - length formed))"

text \<open>
  Canonical order, section 4.2, steps 2 and 3: the cards that are not blank come first,
  the blanks \<^verbatim>\<open>?1\<close>, \<^verbatim>\<open>?2\<close>, ... fill the five places after them, and of two real cards the
  earlier one belongs to the larger group of equal ranks or, in groups of one size, has
  the same rank or the higher rank index. (Cards of one rank are then next to each
  other: a card between two of them can neither be in a larger nor in a smaller group,
  nor have a higher or a lower index.) \<open>canonicalUpToWheel\<close> adds step 4: the cards are
  canonical, or they are five, four, three, two, ace and are canonical with the ace moved
  back to the front.
\<close>

definition realCards :: "card list \<Rightarrow> card list" where
  "realCards cards = filter (\<lambda>c. \<not> isBlankRank (Rank c)) cards"

definition canonicalOrder :: "(rank \<Rightarrow> int) \<Rightarrow> card list \<Rightarrow> bool" where
  "canonicalOrder index cards =
     (length cards = 5 \<and>
      cards = realCards cards @ blanks (5 - length (realCards cards)) \<and>
      sorted_wrt
        (\<lambda>a b. length (cardsForRank cards (Rank b)) < length (cardsForRank cards (Rank a)) \<or>
               (length (cardsForRank cards (Rank a)) = length (cardsForRank cards (Rank b)) \<and>
                (Rank a = Rank b \<or> index (Rank b) < index (Rank a))))
        (realCards cards))"

definition canonicalUpToWheel :: "(rank \<Rightarrow> int) \<Rightarrow> card list \<Rightarrow> bool" where
  "canonicalUpToWheel index cards =
     (canonicalOrder index cards \<or>
      (map Rank cards = [Five, Four, Three, Two, Ace] \<and>
       canonicalOrder index (last cards # butlast cards)))"

section \<open>Auxiliary lemmas\<close>

subsection \<open>Panics, five cards, and the comparison as a first difference\<close>

lemma andThen_simps [simp]:
  "andThen (Inr x) f = f x" "andThen (Inl e) f = Inl e"
  by (simp_all add: andThen_def)

lemma cardAt_simps [simp]:
  "i < length xs \<Longrightarrow> cardAt xs i = Inr (xs ! i)"
  "length xs \<le> i \<Longrightarrow> cardAt xs i = Inl IndexOutOfRange"
  by (simp_all add: cardAt_def)

lemma length_five: "length xs = 5 \<Longrightarrow> \<exists>a b c d e. xs = [a, b, c, d, e]"
  by (auto simp: length_Suc_conv numeral_eq_Suc)

lemma firstDifference_refl [simp]: "firstDifference xs xs = 0"
  by (induction xs) auto

lemma firstDifference_neg: "firstDifference ys xs = - firstDifference xs ys"
  by (induction xs ys rule: firstDifference.induct) auto

lemma firstDifference_zero:
  "length xs = length ys \<Longrightarrow> firstDifference xs ys = 0 \<longleftrightarrow> xs = ys"
  by (induction xs ys rule: list_induct2) auto

lemma firstDifference_trans_le:
  "length xs = length ys \<Longrightarrow> length ys = length zs \<Longrightarrow>
   firstDifference xs ys \<le> 0 \<Longrightarrow> firstDifference ys zs \<le> 0 \<Longrightarrow> firstDifference xs zs \<le> 0"
  by (induction xs ys zs rule: list_induct3) (auto split: if_splits)

lemma firstDifference_trans_gt:
  "length xs = length ys \<Longrightarrow> length ys = length zs \<Longrightarrow>
   0 < firstDifference xs ys \<Longrightarrow> 0 < firstDifference ys zs \<Longrightarrow> 0 < firstDifference xs zs"
  by (induction xs ys zs rule: list_induct3) (auto split: if_splits)

lemma rankingInt_inj [simp]: "rankingInt a = rankingInt b \<longleftrightarrow> a = b"
  by (cases a; cases b) simp_all

lemma compareLoop_five:
  "compareLoop [a, b, c, d, e] [a', b', c', d', e'] [0, 1, 2, 3, 4] =
   Inr (firstDifference (map (\<lambda>c. IndexOf (Rank c)) [a, b, c, d, e])
                        (map (\<lambda>c. IndexOf (Rank c)) [a', b', c', d', e']))"
  by (simp add: Let_def)

lemma CompareTo_specCompare:
  assumes "length (Cards h) = 5" "length (Cards other) = 5"
  shows "CompareTo h other = Inr (specCompare IndexOf h other)"
proof -
  obtain a b c d e where h: "Cards h = [a, b, c, d, e]"
    using length_five [OF assms(1)] by blast
  obtain a' b' c' d' e' where o: "Cards other = [a', b', c', d', e']"
    using length_five [OF assms(2)] by blast
  show ?thesis
    unfolding CompareTo_def specCompare_def indices_def h o
    by (simp only: compareLoop_five rankingInt_inj take_all_iff) simp
qed

subsection \<open>Sorting hands of five cards\<close>

lemma specCompare_firstDifference:
  "specCompare index h other =
   firstDifference (rankingInt (Ranking h) # indices index h)
                   (rankingInt (Ranking other) # indices index other)"
  by (simp add: specCompare_def)

lemma length_indices: "length (Cards h) = 5 \<Longrightarrow> length (indices index h) = 5"
  by (simp add: indices_def)

lemma specCompare_refl [simp]: "specCompare index h h = 0"
  by (simp add: specCompare_def)

lemma specCompare_neg: "specCompare index b a = - specCompare index a b"
  unfolding specCompare_firstDifference by (rule firstDifference_neg)

lemma specCompare_trans_le:
  assumes "length (Cards a) = 5" "length (Cards b) = 5" "length (Cards c) = 5"
    and "specCompare index a b \<le> 0" "specCompare index b c \<le> 0"
  shows "specCompare index a c \<le> 0"
  using assms(4,5) unfolding specCompare_firstDifference
  by (rule firstDifference_trans_le [rotated 2]) (simp_all add: length_indices assms)

lemma specCompare_trans_gt:
  assumes "length (Cards a) = 5" "length (Cards b) = 5" "length (Cards c) = 5"
    and "0 < specCompare index a b" "0 < specCompare index b c"
  shows "0 < specCompare index a c"
  using assms(4,5) unfolding specCompare_firstDifference
  by (rule firstDifference_trans_gt [rotated 2]) (simp_all add: length_indices assms)

lemma Less_five:
  "length (Cards a) = 5 \<Longrightarrow> length (Cards b) = 5 \<Longrightarrow>
   Less a b = Inr (specCompare IndexOf a b < 0)"
  by (simp add: Less_def CompareTo_specCompare)

lemma insertHand_sorted:
  assumes "length (Cards h) = 5" "\<forall>x\<in>set xs. length (Cards x) = 5"
  shows "\<exists>ys. insertHand h xs = Inr ys \<and> set ys = insert h (set xs)
           \<and> length ys = Suc (length xs)
           \<and> (sorted_wrt (\<lambda>a b. specCompare IndexOf a b \<le> 0) xs
                \<longrightarrow> sorted_wrt (\<lambda>a b. specCompare IndexOf a b \<le> 0) ys)"
  using assms(2)
proof (induction xs)
  case Nil
  show ?case by simp
next
  case (Cons x xs)
  then obtain ys where ys: "insertHand h xs = Inr ys" "set ys = insert h (set xs)"
      "length ys = Suc (length xs)"
      "sorted_wrt (\<lambda>a b. specCompare IndexOf a b \<le> 0) xs
        \<longrightarrow> sorted_wrt (\<lambda>a b. specCompare IndexOf a b \<le> 0) ys"
    by auto
  have x5: "length (Cards x) = 5" using Cons.prems by simp
  show ?case
  proof (cases "specCompare IndexOf x h < 0")
    case True
    have "sorted_wrt (\<lambda>a b. specCompare IndexOf a b \<le> 0) (x # ys)"
      if s: "sorted_wrt (\<lambda>a b. specCompare IndexOf a b \<le> 0) (x # xs)"
      using s ys(2,4) True by auto
    with True ys show ?thesis
      by (simp add: Less_five assms(1) x5 insert_commute)
  next
    case False
    have hx: "specCompare IndexOf h x \<le> 0"
      using False specCompare_neg [of IndexOf h x] by simp
    have "sorted_wrt (\<lambda>a b. specCompare IndexOf a b \<le> 0) (h # x # xs)"
      if s: "sorted_wrt (\<lambda>a b. specCompare IndexOf a b \<le> 0) (x # xs)"
    proof -
      have "specCompare IndexOf h y \<le> 0" if "y \<in> set xs" for y
      proof -
        have "specCompare IndexOf x y \<le> 0" using s that by simp
        moreover have "length (Cards y) = 5" using Cons.prems that by simp
        ultimately show ?thesis
          using specCompare_trans_le [OF assms(1) x5, of y IndexOf] hx by simp
      qed
      with s hx show ?thesis by auto
    qed
    with False show ?thesis
      by (simp add: Less_five assms(1) x5 insert_commute)
  qed
qed

lemma sortHands_sorted:
  assumes "\<forall>x\<in>set hs. length (Cards x) = 5"
  shows "\<exists>ys. sortHands hs = Inr ys \<and> set ys = set hs \<and> length ys = length hs
           \<and> sorted_wrt (\<lambda>a b. specCompare IndexOf a b \<le> 0) ys"
  using assms
proof (induction hs)
  case Nil
  show ?case by simp
next
  case (Cons h hs)
  then obtain ys where ys: "sortHands hs = Inr ys" "set ys = set hs" "length ys = length hs"
      "sorted_wrt (\<lambda>a b. specCompare IndexOf a b \<le> 0) ys"
    by auto
  have "length (Cards h) = 5" "\<forall>x\<in>set ys. length (Cards x) = 5"
    using Cons.prems ys(2) by simp_all
  from insertHand_sorted [OF this] ys show ?case by auto
qed

lemma sorted_wrt_last_greatest:
  assumes "sorted_wrt (\<lambda>a b. specCompare index a b \<le> 0) ys" "x \<in> set ys"
  shows "specCompare index x (last ys) \<le> 0"
  using assms
proof (induction ys)
  case Nil
  then show ?case by simp
next
  case (Cons y ys)
  then show ?case by (cases "ys = []") auto
qed

lemma sorted_wrt_first_least:
  assumes "sorted_wrt (\<lambda>a b. specCompare index a b \<le> 0) ys" "x \<in> set ys"
  shows "specCompare index (ys ! 0) x \<le> 0"
  using assms by (cases ys) auto

subsection \<open>Counting ranks in the formed cards\<close>

lemma cardsForRank_append [simp]:
  "cardsForRank (xs @ ys) r = cardsForRank xs r @ cardsForRank ys r"
  by (simp add: cardsForRank_def)

lemma cardsForRank_Nil [simp]: "cardsForRank [] r = []"
  by (simp add: cardsForRank_def)

lemma cardsForRank_twice:
  "cardsForRank (cardsForRank cs r') r = (if r = r' then cardsForRank cs r else [])"
  by (induction cs) (auto simp: cardsForRank_def)

lemma in_cardsForRank: "c \<in> set (cardsForRank cs r) \<longleftrightarrow> c \<in> set cs \<and> Rank c = r"
  by (auto simp: cardsForRank_def)

lemma formedFor_Nil [simp]: "formedFor cs [] i = []"
  by (simp add: formedFor_def)

lemma formedFor_Cons [simp]:
  "formedFor cs (r # rs) i =
   (if length (cardsForRank cs r) = i then cardsForRank cs r else []) @ formedFor cs rs i"
  by (simp add: formedFor_def Let_def)

lemma cardsForRank_formedFor:
  "distinct rs \<Longrightarrow>
   cardsForRank (formedFor cs rs i) r =
   (if r \<in> set rs \<and> length (cardsForRank cs r) = i then cardsForRank cs r else [])"
  by (induction rs) (auto simp: cardsForRank_twice)

lemma in_formedFor:
  "c \<in> set (formedFor cs rs i) \<Longrightarrow>
   c \<in> set cs \<and> Rank c \<in> set rs \<and> length (cardsForRank cs (Rank c)) = i"
  by (induction rs) (auto simp: in_cardsForRank split: if_splits)

lemma length_formedFor:
  "length (formedFor cs rs i) =
   sum_list (map (\<lambda>r. if length (cardsForRank cs r) = i then i else 0) rs)"
  by (induction rs) auto

lemma dvd_length_formedFor: "i dvd length (formedFor cs rs i)"
  by (induction rs) auto

lemma formed_append:
  "formed cs rs = formedFor cs rs 4 @ formedFor cs rs 3 @ formedFor cs rs 2 @ formedFor cs rs 1"
  by (simp add: formed_def)

lemma cardsForRank_formed:
  "distinct rs \<Longrightarrow>
   cardsForRank (formed cs rs) r =
   (if r \<in> set rs \<and> length (cardsForRank cs r) \<le> 4 then cardsForRank cs r else [])"
proof -
  assume d: "distinct rs"
  have "length (cardsForRank cs r) \<le> 4 \<longleftrightarrow>
        length (cardsForRank cs r) = 4 \<or> length (cardsForRank cs r) = 3 \<or>
        length (cardsForRank cs r) = 2 \<or> length (cardsForRank cs r) = 1 \<or>
        cardsForRank cs r = []"
    unfolding length_0_conv [symmetric] by arith
  then show ?thesis
    by (auto simp: formed_append cardsForRank_formedFor [OF d])
qed

lemma in_formed:
  "c \<in> set (formed cs rs) \<Longrightarrow> c \<in> set cs \<and> Rank c \<in> set rs"
  by (auto simp: formed_append dest: in_formedFor)

lemma length_filter_disj:
  "(\<And>x. \<not> (P x \<and> Q x)) \<Longrightarrow>
   length (filter (\<lambda>x. P x \<or> Q x) xs) = length (filter P xs) + length (filter Q xs)"
  by (induction xs) auto

lemma sum_counts:
  "distinct rs \<Longrightarrow>
   sum_list (map (\<lambda>r. length (cardsForRank cs r)) rs) =
   length (filter (\<lambda>c. Rank c \<in> set rs) cs)"
proof (induction rs)
  case Nil
  show ?case by simp
next
  case (Cons r rs)
  have "length (filter (\<lambda>c. Rank c = r \<or> Rank c \<in> set rs) cs) =
        length (filter (\<lambda>c. Rank c = r) cs) + length (filter (\<lambda>c. Rank c \<in> set rs) cs)"
    using Cons.prems by (intro length_filter_disj) auto
  with Cons show ?case by (simp add: cardsForRank_def)
qed

lemma length_formed_sum:
  "length (formed cs rs) =
   sum_list (map (\<lambda>r. if length (cardsForRank cs r) \<in> {1, 2, 3, 4}
                        then length (cardsForRank cs r) else 0) rs)"
  by (induction rs) (auto simp: formed_append)

lemma length_formed_le: "distinct rs \<Longrightarrow> length (formed cs rs) \<le> length cs"
proof -
  assume d: "distinct rs"
  have "length (formed cs rs) \<le> sum_list (map (\<lambda>r. length (cardsForRank cs r)) rs)"
    unfolding length_formed_sum by (rule sum_list_mono) simp
  also have "\<dots> \<le> length cs"
    unfolding sum_counts [OF d] by simp
  finally show ?thesis .
qed

lemma length_formed_eq:
  assumes "distinct rs" "\<forall>c\<in>set cs. Rank c \<in> set rs" "length cs \<le> 4"
  shows "length (formed cs rs) = length cs"
proof -
  have le: "length (cardsForRank cs r) \<le> 4" for r
  proof -
    have "length (cardsForRank cs r) \<le> length cs" by (simp add: cardsForRank_def)
    with assms(3) show ?thesis by simp
  qed
  have "(if length (cardsForRank cs r) \<in> {1, 2, 3, 4}
         then length (cardsForRank cs r) else 0) = length (cardsForRank cs r)" for r
  proof -
    have "length (cardsForRank cs r) = 0 \<or> length (cardsForRank cs r) = 1 \<or>
          length (cardsForRank cs r) = 2 \<or> length (cardsForRank cs r) = 3 \<or>
          length (cardsForRank cs r) = 4"
      using le [of r] by arith
    then show ?thesis by auto
  qed
  then have "length (formed cs rs) = sum_list (map (\<lambda>r. length (cardsForRank cs r)) rs)"
    unfolding length_formed_sum by simp
  also have "\<dots> = length cs"
    unfolding sum_counts [OF assms(1)] using assms(2) by simp
  finally show ?thesis .
qed

lemma blanks_Suc: "blanks (Suc d) = blanks d @ [blankCard (Suc d)]"
  by (simp add: blanks_def)

lemma blanks_0 [simp]: "blanks 0 = []"
  by (simp add: blanks_def)

lemma length_blanks [simp]: "length (blanks d) = d"
  by (simp add: blanks_def)

lemma in_blanks: "c \<in> set (blanks d) \<longleftrightarrow> (\<exists>n. 1 \<le> n \<and> n \<le> d \<and> c = blankCard n)"
  by (induction d) (auto simp: blanks_Suc le_Suc_eq)

lemma blanks_isBlank: "c \<in> set (blanks d) \<Longrightarrow> isBlankRank (Rank c)"
  by (auto simp: in_blanks blankCard_def)

lemma cardsForRank_blanks:
  "cardsForRank (blanks d) r =
   (case r of BlankRank n \<Rightarrow> if 1 \<le> n \<and> n \<le> d then [blankCard n] else [] | _ \<Rightarrow> [])"
  by (induction d) (auto simp: blanks_Suc cardsForRank_def blankCard_def split: rank.splits)

lemma cardsForRank_blanks_real: "\<not> isBlankRank r \<Longrightarrow> cardsForRank (blanks d) r = []"
  by (cases r) (simp_all add: cardsForRank_blanks)

lemma cardsForRank_blanks_blank: "c \<in> set (blanks d) \<Longrightarrow> cardsForRank (blanks d) (Rank c) = [c]"
  by (auto simp: in_blanks cardsForRank_blanks blankCard_def)

lemma map_const_replicate: "(\<And>x. x \<in> set xs \<Longrightarrow> f x = k) \<Longrightarrow> map f xs = replicate (length xs) k"
  by (induction xs) auto

lemma signature_formed_blanks:
  assumes d: "distinct rs" and real: "\<forall>r\<in>set rs. \<not> isBlankRank r"
  shows "signature (formed cs rs @ blanks n) =
         replicate (length (formedFor cs rs 4)) 4 @ replicate (length (formedFor cs rs 3)) 3 @
         replicate (length (formedFor cs rs 2)) 2 @ replicate (length (formedFor cs rs 1)) 1 @
         replicate n 1"
proof -
  let ?F = "formed cs rs @ blanks n"
  have cnt: "length (cardsForRank ?F (Rank c)) = i"
    if "c \<in> set (formedFor cs rs i)" "i \<le> 4" for c i
  proof -
    from in_formedFor [OF that(1)]
    have r: "Rank c \<in> set rs" and l: "length (cardsForRank cs (Rank c)) = i" by simp_all
    from r real have "\<not> isBlankRank (Rank c)" by simp
    then show ?thesis
      using r l that(2) by (simp add: cardsForRank_formed [OF d] cardsForRank_blanks_real)
  qed
  have bl: "length (cardsForRank ?F (Rank c)) = 1" if "c \<in> set (blanks n)" for c
  proof -
    have "Rank c \<notin> set rs" using blanks_isBlank [OF that] real by auto
    then show ?thesis
      by (simp add: cardsForRank_formed [OF d] cardsForRank_blanks_blank [OF that])
  qed
  have "map (\<lambda>c. length (cardsForRank ?F (Rank c))) (formedFor cs rs i) =
        replicate (length (formedFor cs rs i)) i" if "i \<le> 4" for i
    by (rule map_const_replicate) (rule cnt [OF _ that])
  moreover have "map (\<lambda>c. length (cardsForRank ?F (Rank c))) (blanks n) = replicate n 1"
    using map_const_replicate [of "blanks n" "\<lambda>c. length (cardsForRank ?F (Rank c))" 1] bl
    by simp
  ultimately show ?thesis
    unfolding signature_def by (simp add: formed_append)
qed

lemma signature_cases:
  assumes "4 dvd a" "3 dvd b" "2 dvd c" "a + b + c + d + n = (5::nat)"
  shows "replicate a 4 @ replicate b 3 @ replicate c 2 @ replicate d 1 @ replicate n (1::nat)
         \<in> set signatures"
proof -
  from assms(1,4) have a: "a = 0 \<or> a = 4" by (auto elim!: dvdE)
  from assms(2,4) have b: "b = 0 \<or> b = 3" by (auto elim!: dvdE)
  from assms(3,4) have c: "c = 0 \<or> c = 2 \<or> c = 4" by (auto elim!: dvdE)
  have one: "replicate d 1 @ replicate n (1::nat) = replicate (d + n) 1"
    by (simp add: replicate_add)
  from a b c assms(4) show ?thesis
    unfolding one
    by (elim disjE; simp add: signatures_def numeral_eq_Suc; presburger?)
qed

subsection \<open>The sorted input and the padded cards\<close>

lemma sortDesc_Nil [simp]: "sortDesc key [] = []"
  by (simp add: sortDesc_def)

lemma sortDesc_Cons [simp]: "sortDesc key (x # xs) = insertDesc key x (sortDesc key xs)"
  by (simp add: sortDesc_def)

lemma set_insertDesc [simp]: "set (insertDesc key x ys) = insert x (set ys)"
  by (induction ys) auto

lemma length_insertDesc [simp]: "length (insertDesc key x ys) = Suc (length ys)"
  by (induction ys) auto

lemma count_insertDesc:
  "length (filter P (insertDesc key x ys)) = length (filter P (x # ys))"
  by (induction ys) auto

lemma set_sortDesc [simp]: "set (sortDesc key xs) = set xs"
  by (induction xs) auto

lemma length_sortDesc [simp]: "length (sortDesc key xs) = length xs"
  by (induction xs) auto

lemma count_sortDesc: "length (filter P (sortDesc key xs)) = length (filter P xs)"
  by (induction xs) (auto simp: count_insertDesc)

lemma length_cardsForRank_sortDesc [simp]:
  "length (cardsForRank (sortDesc key cs) r) = length (cardsForRank cs r)"
  by (simp add: cardsForRank_def count_sortDesc)

lemma ranks_ace_high:
  "sortDesc IndexOf allRanks =
   [Ace, King, Queen, Jack, Ten, Nine, Eight, Seven, Six, Five, Four, Three, Two]"
  by (simp add: allRanks_def)

lemma ranks_ace_low:
  "sortDesc aceLowIndexOf allRanks =
   [King, Queen, Jack, Ten, Nine, Eight, Seven, Six, Five, Four, Three, Two, Ace]"
  by (simp add: allRanks_def)

lemma ranks_distinct: "distinct (sortDesc (activeIndex opts) allRanks)"
  by (simp add: activeIndex_def ranks_ace_high ranks_ace_low)

lemma ranks_real: "\<forall>r\<in>set (sortDesc (activeIndex opts) allRanks). \<not> isBlankRank r"
  by (simp add: allRanks_def)

lemma ranks_set: "r \<in> set allRanks \<longleftrightarrow> \<not> isBlankRank r"
  by (cases r) (simp_all add: allRanks_def)

lemma ranks_sorted:
  "sorted_wrt (\<lambda>a b. activeIndex opts b < activeIndex opts a) (sortDesc (activeIndex opts) allRanks)"
  by (simp add: activeIndex_def ranks_ace_high ranks_ace_low)

lemma paddedCards_eq:
  "paddedCards cs opts =
   formed (sortDesc (\<lambda>c. activeIndex opts (Rank c)) cs) (sortDesc (activeIndex opts) allRanks) @
   blanks (5 - length (formed (sortDesc (\<lambda>c. activeIndex opts (Rank c)) cs)
                              (sortDesc (activeIndex opts) allRanks)))"
  by (simp add: paddedCards_def activeIndex_def Let_def)

lemma formCards_padded: "formCards cs opts = formLowStraight (paddedCards cs opts)"
  by (simp add: formCards_def paddedCards_def Let_def)

lemma length_paddedCards: "length cs \<le> 5 \<Longrightarrow> length (paddedCards cs opts) = 5"
proof -
  assume "length cs \<le> 5"
  with length_formed_le [OF ranks_distinct, of "sortDesc (\<lambda>c. activeIndex opts (Rank c)) cs" opts]
  show ?thesis by (simp add: paddedCards_eq)
qed

lemma signature_paddedCards:
  assumes "length cs \<le> 5"
  shows "signature (paddedCards cs opts) \<in> set signatures"
proof -
  let ?s = "sortDesc (\<lambda>c. activeIndex opts (Rank c)) cs"
  let ?rs = "sortDesc (activeIndex opts) allRanks"
  have len: "length (formed ?s ?rs) \<le> 5"
    using length_formed_le [OF ranks_distinct, of ?s opts] assms by simp
  have "length (formedFor ?s ?rs 4) + length (formedFor ?s ?rs 3) + length (formedFor ?s ?rs 2)
        + length (formedFor ?s ?rs 1) + (5 - length (formed ?s ?rs)) = 5"
    using len by (simp add: formed_append)
  from signature_cases [OF dvd_length_formedFor dvd_length_formedFor dvd_length_formedFor this]
  show ?thesis
    unfolding paddedCards_eq signature_formed_blanks [OF ranks_distinct ranks_real] .
qed

lemma formLowStraight_five:
  "formLowStraight [a, b, c, d, e] =
   Inr (if Rank a = Ace \<and> Rank b = Five \<and> Rank c = Four \<and> Rank d = Three \<and> Rank e = Two
        then [b, c, d, e, a] else [a, b, c, d, e])"
  by (simp add: formLowStraight_def andAlso_def rankIs_def)

lemma signature_wheel:
  "Rank a = Ace \<Longrightarrow> Rank b = Five \<Longrightarrow> Rank c = Four \<Longrightarrow> Rank d = Three \<Longrightarrow> Rank e = Two \<Longrightarrow>
   signature [b, c, d, e, a] = [1, 1, 1, 1, 1]"
  by (simp add: signature_def cardsForRank_def)

lemma formCards_five:
  assumes "length cs \<le> 5"
  shows "\<exists>F. formCards cs opts = Inr F \<and> length F = 5 \<and> signature F \<in> set signatures"
proof -
  obtain a b c d e where p: "paddedCards cs opts = [a, b, c, d, e]"
    using length_five [OF length_paddedCards [OF assms]] by blast
  have s: "signature [a, b, c, d, e] \<in> set signatures"
    using signature_paddedCards [OF assms, of opts] by (simp add: p)
  show ?thesis
  proof (cases "Rank a = Ace \<and> Rank b = Five \<and> Rank c = Four \<and> Rank d = Three \<and> Rank e = Two")
    case True
    then have "signature [b, c, d, e, a] \<in> set signatures"
      by (simp add: signature_wheel signatures_def)
    with True show ?thesis
      by (simp add: formCards_padded p formLowStraight_five)
  next
    case False
    then have "formLowStraight [a, b, c, d, e] = Inr [a, b, c, d, e]"
      unfolding formLowStraight_five by (simp only: if_False)
    with s show ?thesis
      by (simp add: formCards_padded p)
  qed
qed

subsection \<open>The classifiers on five cards\<close>

lemma hasPairs_five:
  "hasPairs [a, b, c, d, e] [p0, p1, p2, p3, p4] =
   Inr (signature [a, b, c, d, e] = [p0, p1, p2, p3, p4])"
  by (simp add: hasPairs_def signature_def)

lemma hasFlush_blank: "hasBlankCards cards \<Longrightarrow> hasFlush cards = Inr False"
  by (simp add: hasFlush_def)

lemma hasStraight_blank: "hasBlankCards cards \<Longrightarrow> hasStraight cards = Inr False"
  by (simp add: hasStraight_def)

lemma hasFlush_five: "\<exists>fl. hasFlush [a, b, c, d, e] = Inr fl"
  by (cases "hasBlankCards [a, b, c, d, e]") (auto simp: hasFlush_def)

lemma hasLowStraight_five:
  "hasLowStraight [a, b, c, d, e] =
   Inr (Rank a = Five \<and> Rank b = Four \<and> Rank c = Three \<and> Rank d = Two \<and> Rank e = Ace)"
  by (simp add: hasLowStraight_def andAlso_def rankIs_def)

lemma hasStraight_five_eq:
  "hasStraight [a, b, c, d, e] =
   Inr (\<not> hasBlankCards [a, b, c, d, e] \<and>
        ((IndexOf (Rank a) = IndexOf (Rank b) + 1 \<and> IndexOf (Rank b) = IndexOf (Rank c) + 1 \<and>
          IndexOf (Rank c) = IndexOf (Rank d) + 1 \<and> IndexOf (Rank d) = IndexOf (Rank e) + 1) \<or>
         (Rank a = Five \<and> Rank b = Four \<and> Rank c = Three \<and> Rank d = Two \<and> Rank e = Ace)))"
  by (auto simp: hasStraight_def hasLowStraight_five Let_def)

lemma hasStraight_five: "\<exists>st. hasStraight [a, b, c, d, e] = Inr st"
  unfolding hasStraight_five_eq by blast

lemma rankAt_five [simp]:
  "rankAt [a, b, c, d, e] 0 = Inr (Rank a)"
  "rankAt [a, b, c, d, e] 2 = Inr (Rank c)"
  "rankAt [a, b, c, d, e] 3 = Inr (Rank d)"
  by (simp_all add: rankAt_def)

lemmas ranking_defs =
  rankings_def highCard_def pair_def twoPair_def threeOfAKind_def straight_def flush_def
  fullHouse_def fourOfAKind_def straightFlush_def royalFlush_def

lemma firstRanking_Cards:
  "firstRanking rs F opts = Inr h \<Longrightarrow> Cards h = F"
proof (induction rs)
  case Nil
  then show ?case by simp
next
  case (Cons r rs)
  then show ?case
    by (auto simp: andThen_def split: sum.splits if_splits)
qed

lemma firstRanking_total:
  assumes sg: "signature [a, b, c, d, e] \<in> set signatures"
    and flags: "IgnoreStraights opts = IgnoreFlushes opts"
  shows "\<exists>h. firstRanking rankings [a, b, c, d, e] opts = Inr h"
proof -
  obtain fl where fl: "hasFlush [a, b, c, d, e] = Inr fl" using hasFlush_five by blast
  obtain st where st: "hasStraight [a, b, c, d, e] = Inr st" using hasStraight_five by blast
  from sg flags show ?thesis
    by (auto simp: signatures_def ranking_defs fl st hasPairs_five Let_def)
qed

lemma firstRanking_blank:
  assumes sg: "signature [a, b, c, d, e] \<in> set signatures"
    and bl: "hasBlankCards [a, b, c, d, e]"
  shows "\<exists>h. firstRanking rankings [a, b, c, d, e] opts = Inr h \<and>
     Ranking h =
       (if signature [a, b, c, d, e] = [1, 1, 1, 1, 1] then HighCard
        else if signature [a, b, c, d, e] = [2, 2, 1, 1, 1] then PairR
        else if signature [a, b, c, d, e] = [2, 2, 2, 2, 1] then TwoPair
        else if signature [a, b, c, d, e] = [3, 3, 3, 1, 1] then ThreeOfAKind
        else if signature [a, b, c, d, e] = [3, 3, 3, 2, 2] then FullHouse
        else FourOfAKind)"
  using sg
  by (auto simp: signatures_def ranking_defs hasFlush_blank [OF bl] hasStraight_blank [OF bl]
        hasPairs_five Let_def)

subsection \<open>Combinations and the selected hand\<close>

lemma handForFiveCards_Cards:
  assumes "length cs \<le> 5" "handForFiveCards cs opts = Inr h"
  shows "formCards cs opts = Inr (Cards h) \<and> length (Cards h) = 5"
proof -
  obtain F where F: "formCards cs opts = Inr F" "length F = 5"
    using formCards_five [OF assms(1)] by blast
  with assms(2) have "firstRanking rankings F opts = Inr h"
    by (simp add: handForFiveCards_def)
  from firstRanking_Cards [OF this] F show ?thesis by simp
qed

lemma handForFiveCards_total:
  assumes "length cs \<le> 5" "IgnoreStraights opts = IgnoreFlushes opts"
  shows "\<exists>h. handForFiveCards cs opts = Inr h"
proof -
  obtain F where F: "formCards cs opts = Inr F" "length F = 5" "signature F \<in> set signatures"
    using formCards_five [OF assms(1)] by blast
  obtain a b c d e where "F = [a, b, c, d, e]" using length_five [OF F(2)] by blast
  with F firstRanking_total [OF _ assms(2), of a b c d e] show ?thesis
    by (simp add: handForFiveCards_def)
qed

lemma handForFiveCards_panic:
  assumes "length cs \<le> 5" "handForFiveCards cs opts = Inl p"
  shows "p = ShouldNeverGetHere"
proof -
  obtain F where F: "formCards cs opts = Inr F" "length F = 5"
    using formCards_five [OF assms(1)] by blast
  obtain a b c d e where abc: "F = [a, b, c, d, e]" using length_five [OF F(2)] by blast
  obtain fl where fl: "hasFlush [a, b, c, d, e] = Inr fl" using hasFlush_five by blast
  obtain st where st: "hasStraight [a, b, c, d, e] = Inr st" using hasStraight_five by blast
  from assms(2) have "firstRanking rankings [a, b, c, d, e] opts = Inl p"
    by (simp add: handForFiveCards_def F abc)
  then show ?thesis
    by (simp add: ranking_defs fl st hasPairs_five Let_def split: if_splits)
qed

lemma combsOf_member:
  "c \<in> set (combsOf xs k) \<Longrightarrow> length c = k \<and> set c \<subseteq> set xs"
proof (induction xs k arbitrary: c rule: combsOf.induct)
  case (1 xs)
  then show ?case by simp
next
  case (2 k)
  then show ?case by simp
next
  case (3 x xs k)
  from "3.prems" consider c' where "c = x # c'" "c' \<in> set (combsOf xs k)"
    | "c \<in> set (combsOf xs (Suc k))"
    by auto
  then show ?case
  proof cases
    case 1
    with "3.IH"(1) [of c'] show ?thesis by auto
  next
    case 2
    with "3.IH"(2) [of c] show ?thesis by auto
  qed
qed

lemma combsOf_nonempty: "k \<le> length xs \<Longrightarrow> combsOf xs k \<noteq> []"
  by (induction xs k rule: combsOf.induct) auto

lemma combsOf_too_long: "length xs < k \<Longrightarrow> combsOf xs k = []"
  by (induction xs k rule: combsOf.induct) auto

lemma combsOf_all: "combsOf xs (length xs) = [xs]"
  by (induction xs) (auto simp: combsOf_too_long)

lemma combinations_in_range:
  "c \<in> set (combinations n k) \<Longrightarrow> length c = k \<and> (\<forall>i\<in>set c. i < n)"
  using combsOf_member [of c "[0..<n]" k] by (auto simp: combinations_def)

lemma cardCombos_member:
  assumes "c \<in> set (cardCombos cards)"
  shows "length c \<le> 5 \<and> length c = min 5 (length cards) \<and> set c \<subseteq> set cards"
proof -
  from assms obtain combo where
    combo: "combo \<in> set (combinations (length cards) (min 5 (length cards)))"
    and c: "c = map (\<lambda>i. cards ! i) combo"
    by (auto simp: cardCombos_def Let_def min_def split: if_splits)
  from combinations_in_range [OF combo] c show ?thesis by auto
qed

lemma cardCombos_nonempty: "cardCombos cards \<noteq> []"
  by (simp add: cardCombos_def Let_def combinations_def combsOf_nonempty)

lemma cardCombos_short: "length cards \<le> 5 \<Longrightarrow> cardCombos cards = [cards]"
proof -
  assume "length cards \<le> 5"
  then have "(if length cards < 5 then length cards else 5) = length [0..<length cards]"
    by simp
  then show ?thesis
    unfolding cardCombos_def Let_def combinations_def
    by (simp only: combsOf_all) (simp add: map_nth)
qed

lemma handsFor_Inr:
  "handsFor combos opts = Inr hands \<Longrightarrow>
   list_all2 (\<lambda>c h. handForFiveCards c opts = Inr h) combos hands"
  by (induction combos arbitrary: hands) (auto simp: andThen_def split: sum.splits)

lemma handsFor_total:
  "\<forall>c\<in>set combos. \<exists>h. handForFiveCards c opts = Inr h \<Longrightarrow> \<exists>hands. handsFor combos opts = Inr hands"
  by (induction combos) auto

lemma NewHandWithOptions_selected:
  assumes hands: "handsFor (cardCombos cards) opts = Inr hands"
  shows "\<exists>h. NewHandWithOptions cards opts = Inr h \<and> h \<in> set hands
           \<and> (\<forall>x\<in>set hands. if Sorting opts = Low then specCompare IndexOf h x \<le> 0
                               else 0 \<le> specCompare IndexOf h x)"
proof -
  have l2: "list_all2 (\<lambda>c h. handForFiveCards c opts = Inr h) (cardCombos cards) hands"
    by (rule handsFor_Inr [OF hands])
  have five: "\<forall>x\<in>set hands. length (Cards x) = 5"
  proof
    fix x assume "x \<in> set hands"
    then obtain i where i: "i < length hands" "x = hands ! i"
      by (auto simp: in_set_conv_nth)
    define c where "c = cardCombos cards ! i"
    have "c \<in> set (cardCombos cards)" "handForFiveCards c opts = Inr x"
      using l2 i by (auto simp: c_def list_all2_conv_all_nth)
    then show "length (Cards x) = 5"
      using handForFiveCards_Cards [of c opts x] cardCombos_member [of c cards] by simp
  qed
  have ne: "hands \<noteq> []"
    using l2 cardCombos_nonempty [of cards] by (auto simp: list_all2_Nil2)
  obtain ys where ys: "sortHands hands = Inr ys" "set ys = set hands" "length ys = length hands"
      "sorted_wrt (\<lambda>a b. specCompare IndexOf a b \<le> 0) ys"
    using sortHands_sorted [OF five] by blast
  have yne: "ys \<noteq> []" using ne ys(3) by auto
  show ?thesis
  proof (cases "Sorting opts = Low")
    case True
    have "NewHandWithOptions cards opts = Inr (ys ! 0)"
      using True yne by (simp add: NewHandWithOptions_def hands ys(1) Let_def)
    moreover have "ys ! 0 \<in> set hands" using yne ys(2) nth_mem [of 0 ys] by auto
    moreover have "\<forall>x\<in>set hands. specCompare IndexOf (ys ! 0) x \<le> 0"
      using sorted_wrt_first_least [OF ys(4)] ys(2) by simp
    ultimately show ?thesis using True by auto
  next
    case False
    have idx: "nat (int (length hands) - 1) = length ys - 1" using ys(3) by simp
    have "NewHandWithOptions cards opts = Inr (last ys)"
      using False yne ne
      by (simp add: NewHandWithOptions_def hands ys(1) Let_def idx last_conv_nth)
    moreover have "last ys \<in> set hands" using yne ys(2) last_in_set by blast
    moreover have "\<forall>x\<in>set hands. 0 \<le> specCompare IndexOf (last ys) x"
    proof
      fix x assume "x \<in> set hands"
      then have "specCompare IndexOf x (last ys) \<le> 0"
        using sorted_wrt_last_greatest [OF ys(4)] ys(2) by simp
      then show "0 \<le> specCompare IndexOf (last ys) x"
        using specCompare_neg [of IndexOf "last ys" x] by simp
    qed
    ultimately show ?thesis using False by auto
  qed
qed

subsection \<open>When every combination is classified\<close>

lemma NewHandWithOptions_total:
  assumes "\<forall>c\<in>set (cardCombos cards). handForFiveCards c opts \<noteq> Inl ShouldNeverGetHere"
  shows "\<exists>hands. handsFor (cardCombos cards) opts = Inr hands"
proof (rule handsFor_total, rule ballI)
  fix c assume c: "c \<in> set (cardCombos cards)"
  then have len: "length c \<le> 5" using cardCombos_member by blast
  show "\<exists>h. handForFiveCards c opts = Inr h"
  proof (cases "handForFiveCards c opts")
    case (Inl p)
    with handForFiveCards_panic [OF len Inl] assms c show ?thesis by auto
  next
    case (Inr h)
    then show ?thesis by blast
  qed
qed

lemma flags_no_panic:
  assumes "IgnoreStraights opts = IgnoreFlushes opts"
  shows "\<forall>c\<in>set (cardCombos cards). handForFiveCards c opts \<noteq> Inl ShouldNeverGetHere"
proof
  fix c assume "c \<in> set (cardCombos cards)"
  then have "length c \<le> 5" using cardCombos_member by blast
  from handForFiveCards_total [OF this assms] show "handForFiveCards c opts \<noteq> Inl ShouldNeverGetHere"
    by auto
qed

subsection \<open>Blank cards in the formed cards\<close>

lemma hasBlankCards_iff: "hasBlankCards cards \<longleftrightarrow> (\<exists>c\<in>set cards. isBlankRank (Rank c))"
  by (simp add: hasBlankCards_def list_ex_iff)

lemma paddedCards_blank_count:
  assumes "c \<in> set (paddedCards cs opts)" "isBlankRank (Rank c)"
  shows "length (cardsForRank (paddedCards cs opts) (Rank c)) = 1"
proof -
  let ?s = "sortDesc (\<lambda>c. activeIndex opts (Rank c)) cs"
  let ?rs = "sortDesc (activeIndex opts) allRanks"
  let ?n = "5 - length (formed ?s ?rs)"
  have notin: "Rank c \<notin> set ?rs" using assms(2) ranks_real [of opts] by auto
  then have "c \<notin> set (formed ?s ?rs)" using in_formed [of c ?s ?rs] by auto
  with assms(1) have "c \<in> set (blanks ?n)" by (simp add: paddedCards_eq)
  from cardsForRank_blanks_blank [OF this] notin show ?thesis
    by (simp add: paddedCards_eq cardsForRank_formed [OF ranks_distinct])
qed

lemma formCards_cases:
  assumes "length cs \<le> 5"
  shows "formCards cs opts = Inr (paddedCards cs opts) \<or>
         (\<exists>a b c d e. paddedCards cs opts = [a, b, c, d, e] \<and> Rank a = Ace \<and> Rank b = Five \<and>
            Rank c = Four \<and> Rank d = Three \<and> Rank e = Two \<and>
            formCards cs opts = Inr [b, c, d, e, a])"
proof -
  obtain a b c d e where p: "paddedCards cs opts = [a, b, c, d, e]"
    using length_five [OF length_paddedCards [OF assms]] by blast
  show ?thesis
  proof (cases "Rank a = Ace \<and> Rank b = Five \<and> Rank c = Four \<and> Rank d = Three \<and> Rank e = Two")
    case True
    then have "formCards cs opts = Inr [b, c, d, e, a]"
      by (simp add: formCards_padded p formLowStraight_five)
    with True p show ?thesis by blast
  next
    case False
    then have "formLowStraight [a, b, c, d, e] = Inr [a, b, c, d, e]"
      unfolding formLowStraight_five by (simp only: if_False)
    then show ?thesis by (simp add: formCards_padded p)
  qed
qed

lemma formCards_blank_count:
  assumes "length cs \<le> 5"
  shows "\<exists>F. formCards cs opts = Inr F \<and>
           (\<forall>c\<in>set F. isBlankRank (Rank c) \<longrightarrow> length (cardsForRank F (Rank c)) = 1)"
  using formCards_cases [OF assms, of opts]
proof (elim disjE exE conjE)
  assume "formCards cs opts = Inr (paddedCards cs opts)"
  then show ?thesis using paddedCards_blank_count [of _ cs opts] by auto
next
  fix a b c d e
  assume "Rank a = Ace" "Rank b = Five" "Rank c = Four" "Rank d = Three" "Rank e = Two"
    "formCards cs opts = Inr [b, c, d, e, a]"
  then show ?thesis by auto
qed

lemma NewHand_total: "\<exists>h. NewHand cards = Inr h"
proof -
  have "IgnoreStraights defaultOptions = IgnoreFlushes defaultOptions"
    by (simp add: defaultOptions_def)
  from NewHandWithOptions_total [OF flags_no_panic [OF this], of cards]
  obtain hands where "handsFor (cardCombos cards) defaultOptions = Inr hands" by blast
  from NewHandWithOptions_selected [OF this] show ?thesis
    unfolding NewHand_def by blast
qed

subsection \<open>Canonical order of the formed cards\<close>

lemma count_in_padded:
  assumes "distinct rs" "\<forall>r\<in>set rs. \<not> isBlankRank r" "c \<in> set (formedFor cs rs i)" "i \<le> 4"
  shows "length (cardsForRank (formed cs rs @ blanks n) (Rank c)) = i"
proof -
  from in_formedFor [OF assms(3)]
  have r: "Rank c \<in> set rs" and l: "length (cardsForRank cs (Rank c)) = i" by simp_all
  from r assms(2) have "\<not> isBlankRank (Rank c)" by simp
  then show ?thesis
    using r l assms(4) by (simp add: cardsForRank_formed [OF assms(1)] cardsForRank_blanks_real)
qed

lemma sorted_wrt_formedFor:
  assumes "sorted_wrt (\<lambda>a b. index b < index a) rs"
    and "\<forall>c\<in>set (formedFor cs rs i). K (Rank c) = i"
  shows "sorted_wrt (\<lambda>a b. K (Rank b) < K (Rank a) \<or>
                          (K (Rank a) = K (Rank b) \<and>
                           (Rank a = Rank b \<or> index (Rank b) < index (Rank a))))
           (formedFor cs rs i)"
  using assms
proof (induction rs)
  case Nil
  show ?case by simp
next
  case (Cons r rs)
  have tail: "sorted_wrt (\<lambda>a b. K (Rank b) < K (Rank a) \<or>
                          (K (Rank a) = K (Rank b) \<and>
                           (Rank a = Rank b \<or> index (Rank b) < index (Rank a))))
           (formedFor cs rs i)"
    using Cons by simp
  show ?case
  proof (cases "length (cardsForRank cs r) = i")
    case False
    with tail show ?thesis by simp
  next
    case True
    have K: "K (Rank c) = i" if "c \<in> set (cardsForRank cs r) \<or> c \<in> set (formedFor cs rs i)" for c
      using Cons.prems(2) True that by auto
    have same: "sorted_wrt (\<lambda>a b. K (Rank b) < K (Rank a) \<or>
                          (K (Rank a) = K (Rank b) \<and>
                           (Rank a = Rank b \<or> index (Rank b) < index (Rank a))))
           (cardsForRank cs r)"
      by (rule sorted_wrt_mono_rel [of _ "\<lambda>a b. True"])
         (auto simp: in_cardsForRank K sorted_wrt_true)
    have cross: "K (Rank a) = K (Rank b) \<and> index (Rank b) < index (Rank a)"
      if "a \<in> set (cardsForRank cs r)" "b \<in> set (formedFor cs rs i)" for a b
    proof -
      have "Rank b \<in> set rs" using in_formedFor [OF that(2)] by simp
      with Cons.prems(1) have "index (Rank b) < index r" by auto
      with that K show ?thesis by (auto simp: in_cardsForRank)
    qed
    from same tail cross True show ?thesis
      by (simp add: sorted_wrt_append)
  qed
qed

lemma realCards_padded:
  "realCards (paddedCards cs opts) =
   formed (sortDesc (\<lambda>c. activeIndex opts (Rank c)) cs) (sortDesc (activeIndex opts) allRanks)"
proof -
  let ?s = "sortDesc (\<lambda>c. activeIndex opts (Rank c)) cs"
  let ?rs = "sortDesc (activeIndex opts) allRanks"
  have "filter (\<lambda>c. \<not> isBlankRank (Rank c)) (formed ?s ?rs) = formed ?s ?rs"
    using in_formed [where cs = ?s and rs = ?rs] ranks_real [of opts]
    by (intro filter_True) blast
  moreover have "filter (\<lambda>c. \<not> isBlankRank (Rank c)) (blanks n) = []" for n
    using blanks_isBlank by (intro filter_False) blast
  ultimately show ?thesis by (simp add: realCards_def paddedCards_eq)
qed

lemma canonicalOrder_padded:
  assumes "length cs \<le> 5"
  shows "canonicalOrder (activeIndex opts) (paddedCards cs opts)"
proof -
  let ?s = "sortDesc (\<lambda>c. activeIndex opts (Rank c)) cs"
  let ?rs = "sortDesc (activeIndex opts) allRanks"
  define K where "K = (\<lambda>r. length (cardsForRank (paddedCards cs opts) r))"
  define R where "R = (\<lambda>a b. K (Rank b) < K (Rank a) \<or>
               (K (Rank a) = K (Rank b) \<and>
                (Rank a = Rank b \<or> activeIndex opts (Rank b) < activeIndex opts (Rank a))))"
  have K: "\<forall>c\<in>set (formedFor ?s ?rs i). K (Rank c) = i" if "i \<le> 4" for i
    using count_in_padded [OF ranks_distinct [of opts] ranks_real [of opts] _ that, where cs = ?s]
    by (simp add: paddedCards_eq K_def)
  have grp: "sorted_wrt R (formedFor ?s ?rs i)" if "i \<le> 4" for i
    unfolding R_def by (rule sorted_wrt_formedFor [OF ranks_sorted K [OF that]])
  have cross: "R a b"
    if "a \<in> set (formedFor ?s ?rs i)" "b \<in> set (formedFor ?s ?rs j)" "j < i" "i \<le> 4"
    for a b i j
  proof -
    have "K (Rank a) = i" using K [OF that(4)] that(1) by blast
    moreover have "K (Rank b) = j" using K [of j] that(2,3,4) by auto
    ultimately show ?thesis using that(3) by (simp add: R_def)
  qed
  have s21: "sorted_wrt R (formedFor ?s ?rs 2 @ formedFor ?s ?rs 1)"
    using grp [of 2] grp [of 1] cross [of _ 2 _ 1] by (simp add: sorted_wrt_append)
  have s321: "sorted_wrt R (formedFor ?s ?rs 3 @ formedFor ?s ?rs 2 @ formedFor ?s ?rs 1)"
    using grp [of 3] s21 cross [of _ 3 _ 2] cross [of _ 3 _ 1]
    by (auto simp: sorted_wrt_append)
  have "sorted_wrt R (formed ?s ?rs)"
    unfolding formed_append
    using grp [of 4] s321 cross [of _ 4 _ 3] cross [of _ 4 _ 2] cross [of _ 4 _ 1]
    by (auto simp: sorted_wrt_append)
  then show ?thesis
    unfolding canonicalOrder_def realCards_padded R_def K_def
    using length_paddedCards [OF assms, of opts] by (simp add: paddedCards_eq)
qed

lemma set_realCards: "set (realCards cs) = {c \<in> set cs. \<not> isBlankRank (Rank c)}"
  by (simp add: realCards_def)

lemma handForFiveCards_canonical:
  assumes "length cs \<le> 5" "handForFiveCards cs opts = Inr h"
  shows "length (Cards h) = 5 \<and> canonicalUpToWheel (activeIndex opts) (Cards h)
         \<and> set (realCards (Cards h)) \<subseteq> set cs"
proof -
  have F: "formCards cs opts = Inr (Cards h)" and len: "length (Cards h) = 5"
    using handForFiveCards_Cards [OF assms] by simp_all
  have can: "canonicalOrder (activeIndex opts) (paddedCards cs opts)"
    by (rule canonicalOrder_padded [OF assms(1)])
  have sub: "set (realCards (paddedCards cs opts)) \<subseteq> set cs"
    unfolding realCards_padded using in_formed by fastforce
  from formCards_cases [OF assms(1), of opts] show ?thesis
  proof (elim disjE exE conjE)
    assume "formCards cs opts = Inr (paddedCards cs opts)"
    with F have "Cards h = paddedCards cs opts" by simp
    with can sub len show ?thesis by (simp add: canonicalUpToWheel_def)
  next
    fix a b c d e
    assume p: "paddedCards cs opts = [a, b, c, d, e]"
      and r: "Rank a = Ace" "Rank b = Five" "Rank c = Four" "Rank d = Three" "Rank e = Two"
      and "formCards cs opts = Inr [b, c, d, e, a]"
    with F have h: "Cards h = [b, c, d, e, a]" by simp
    have "canonicalUpToWheel (activeIndex opts) [b, c, d, e, a]"
      using can r by (simp add: canonicalUpToWheel_def p)
    moreover have "set (realCards [b, c, d, e, a]) \<subseteq> set cs"
      using sub unfolding p set_realCards by auto
    ultimately show ?thesis using len h by simp
  qed
qed

lemma NewHandWithOptions_from_combo:
  assumes "NewHandWithOptions cards opts = Inr h"
  shows "\<exists>c\<in>set (cardCombos cards). handForFiveCards c opts = Inr h"
proof (cases "handsFor (cardCombos cards) opts")
  case (Inl p)
  with assms show ?thesis by (simp add: NewHandWithOptions_def)
next
  case (Inr hands)
  from NewHandWithOptions_selected [OF Inr] assms have "h \<in> set hands" by auto
  then obtain i where i: "i < length hands" "h = hands ! i"
    by (auto simp: in_set_conv_nth)
  with handsFor_Inr [OF Inr] have "cardCombos cards ! i \<in> set (cardCombos cards)"
    "handForFiveCards (cardCombos cards ! i) opts = Inr h"
    by (auto simp: list_all2_conv_all_nth)
  then show ?thesis by blast
qed

subsection \<open>Inputs of at most four cards\<close>

lemma NewHandWithOptions_short:
  assumes "length cards \<le> 5"
  shows "NewHandWithOptions cards opts = handForFiveCards cards opts"
proof (cases "handForFiveCards cards opts")
  case (Inl p)
  then show ?thesis
    by (simp add: NewHandWithOptions_def cardCombos_short [OF assms])
next
  case (Inr h)
  then have five: "length (Cards h) = 5"
    using handForFiveCards_Cards [OF assms] by simp
  show ?thesis
    by (simp add: NewHandWithOptions_def cardCombos_short [OF assms] Inr Let_def)
qed

lemma paddedCards_has_blank:
  assumes "length cs \<le> 4"
  shows "hasBlankCards (paddedCards cs opts) \<and> last (signature (paddedCards cs opts)) = 1"
proof -
  let ?s = "sortDesc (\<lambda>c. activeIndex opts (Rank c)) cs"
  let ?rs = "sortDesc (activeIndex opts) allRanks"
  define n where "n = 5 - length (formed ?s ?rs)"
  have "length (formed ?s ?rs) \<le> 4"
    using length_formed_le [OF ranks_distinct, of ?s opts] assms by simp
  then have n: "1 \<le> n" by (simp add: n_def)
  then have "blankCard n \<in> set (blanks n)" by (auto simp: in_blanks)
  moreover have "isBlankRank (Rank (blankCard n))" by (simp add: blankCard_def)
  ultimately have "\<exists>c\<in>set (paddedCards cs opts). isBlankRank (Rank c)"
    unfolding paddedCards_eq n_def [symmetric] by (intro bexI [of _ "blankCard n"]) simp_all
  then have "hasBlankCards (paddedCards cs opts)"
    by (simp add: hasBlankCards_iff)
  moreover have "last (signature (paddedCards cs opts)) = 1"
    unfolding paddedCards_eq signature_formed_blanks [OF ranks_distinct ranks_real]
      n_def [symmetric]
    using n by (cases n) simp_all
  ultimately show ?thesis by simp
qed

lemma formCards_short:
  assumes "length cs \<le> 4"
  shows "formCards cs opts = Inr (paddedCards cs opts)"
proof -
  have len: "length cs \<le> 5" using assms by simp
  from paddedCards_has_blank [OF assms, of opts]
  obtain x where x: "x \<in> set (paddedCards cs opts)" "isBlankRank (Rank x)"
    by (auto simp: hasBlankCards_iff)
  from formCards_cases [OF len, of opts] show ?thesis
  proof (elim disjE exE conjE)
    fix a b c d e
    assume "paddedCards cs opts = [a, b, c, d, e]"
      "Rank a = Ace" "Rank b = Five" "Rank c = Four" "Rank d = Three" "Rank e = Two"
    with x show ?thesis by auto
  qed
qed

lemma count_distinct: "distinct (map f xs) \<Longrightarrow> length (filter (\<lambda>x. f x = r) xs) \<le> 1"
proof (induction xs)
  case Nil
  show ?case by simp
next
  case (Cons x xs)
  show ?case
  proof (cases "f x = r")
    case True
    from Cons.prems have "f x \<notin> f ` set xs" by simp
    with True have "f y \<noteq> r" if "y \<in> set xs" for y
      using that by blast
    then have "filter (\<lambda>y. f y = r) xs = []"
      by (simp add: filter_empty_conv)
    with True show ?thesis by simp
  next
    case False
    with Cons show ?thesis by simp
  qed
qed

lemma distinct_count:
  "(\<And>r. length (filter (\<lambda>x. f x = r) xs) \<le> 1) \<Longrightarrow> distinct (map f xs)"
proof (induction xs)
  case Nil
  show ?case by simp
next
  case (Cons x xs)
  have "length (filter (\<lambda>y. f y = r) xs) \<le> 1" for r
    using Cons.prems [of r] by (simp split: if_splits)
  then have d: "distinct (map f xs)" by (rule Cons.IH)
  have "filter (\<lambda>y. f y = f x) xs = []" using Cons.prems [of "f x"] by simp
  then have "f x \<notin> f ` set xs" by (auto simp: filter_empty_conv)
  with d show ?case by simp
qed

lemma signature_distinct:
  assumes "length cs \<le> 5" "distinct (map Rank cs)"
  shows "signature (paddedCards cs opts) = [1, 1, 1, 1, 1]"
proof -
  let ?s = "sortDesc (\<lambda>c. activeIndex opts (Rank c)) cs"
  let ?rs = "sortDesc (activeIndex opts) allRanks"
  have one: "length (cardsForRank ?s r) \<le> 1" for r
    using count_distinct [OF assms(2), of r] by (simp add: cardsForRank_def count_sortDesc)
  have empty: "formedFor ?s ?rs i = []" if "2 \<le> i" for i
  proof (rule ccontr)
    assume "formedFor ?s ?rs i \<noteq> []"
    then obtain c where "c \<in> set (formedFor ?s ?rs i)"
      by (cases "formedFor ?s ?rs i") auto
    from in_formedFor [OF this] one [of "Rank c"] that show False by simp
  qed
  have "length (formedFor ?s ?rs 1) + (5 - length (formed ?s ?rs)) = 5"
    using length_formed_le [OF ranks_distinct, of ?s opts] assms(1)
    by (simp add: formed_append empty)
  then have "replicate (length (formedFor ?s ?rs 1)) (1::nat) @
             replicate (5 - length (formed ?s ?rs)) 1 = replicate 5 1"
    by (simp add: replicate_add [symmetric])
  then show ?thesis
    unfolding paddedCards_eq signature_formed_blanks [OF ranks_distinct ranks_real]
    by (simp add: empty numeral_eq_Suc)
qed

lemma cardsForRank_in_formedFor:
  "r \<in> set rs \<Longrightarrow> length (cardsForRank cs r) = i \<Longrightarrow>
   set (cardsForRank cs r) \<subseteq> set (formedFor cs rs i)"
  by (induction rs) auto

lemma signature_repeated:
  assumes "length cs \<le> 4" "\<not> distinct (map Rank cs)" "\<forall>c\<in>set cs. \<not> isBlankRank (Rank c)"
  shows "signature (paddedCards cs opts) \<noteq> [1, 1, 1, 1, 1]"
proof -
  let ?s = "sortDesc (\<lambda>c. activeIndex opts (Rank c)) cs"
  let ?rs = "sortDesc (activeIndex opts) allRanks"
  from assms(2) distinct_count [of Rank cs]
  obtain r where r: "\<not> length (cardsForRank cs r) \<le> 1"
    by (auto simp: cardsForRank_def)
  define i where "i = length (cardsForRank ?s r)"
  have i2: "2 \<le> i" using r by (simp add: i_def)
  have "length (cardsForRank cs r) \<le> length cs" by (simp add: cardsForRank_def)
  with assms(1) have i4: "i \<le> 4" by (simp add: i_def)
  from i2 obtain c where c: "c \<in> set (cardsForRank ?s r)"
    unfolding i_def by (cases "cardsForRank ?s r") auto
  then have "c \<in> set cs" "Rank c = r" by (simp_all add: in_cardsForRank)
  with assms(3) have "r \<in> set ?rs" by (auto simp: ranks_set)
  from cardsForRank_in_formedFor [OF this i_def [symmetric]] c
  have cin: "c \<in> set (formedFor ?s ?rs i)" by blast
  from count_in_padded [OF ranks_distinct [of opts] ranks_real [of opts] cin i4]
  have "length (cardsForRank (paddedCards cs opts) (Rank c)) = i"
    by (simp add: paddedCards_eq)
  moreover have "c \<in> set (paddedCards cs opts)"
    using cin i2 i4 in_formedFor [OF cin]
      cardsForRank_formed [OF ranks_distinct [of opts], of ?s "Rank c"]
      in_cardsForRank [of c "formed ?s ?rs" "Rank c"] in_cardsForRank [of c ?s "Rank c"]
    by (simp add: paddedCards_eq)
  ultimately have "i \<in> set (signature (paddedCards cs opts))"
    unfolding signature_def by force
  with i2 show ?thesis by auto
qed

lemma paddedCards_real:
  assumes "length cs \<le> 4" "\<forall>c\<in>set cs. \<not> isBlankRank (Rank c)"
  shows "drop (length cs) (paddedCards cs opts) = blanks (5 - length cs)
         \<and> set (take (length cs) (paddedCards cs opts)) = set cs"
proof -
  let ?s = "sortDesc (\<lambda>c. activeIndex opts (Rank c)) cs"
  let ?rs = "sortDesc (activeIndex opts) allRanks"
  have len: "length (formed ?s ?rs) = length cs"
    using length_formed_eq [OF ranks_distinct, of ?s opts] assms
    by (simp add: ranks_set)
  have "set cs \<subseteq> set (formed ?s ?rs)"
  proof
    fix c assume c: "c \<in> set cs"
    have "length (cardsForRank cs (Rank c)) \<le> length cs" by (simp add: cardsForRank_def)
    with assms(1) have "length (cardsForRank ?s (Rank c)) \<le> 4" by simp
    moreover have "Rank c \<in> set ?rs" using assms(2) c by (simp add: ranks_set)
    ultimately have "cardsForRank (formed ?s ?rs) (Rank c) = cardsForRank ?s (Rank c)"
      by (simp add: cardsForRank_formed [OF ranks_distinct])
    moreover have "c \<in> set (cardsForRank ?s (Rank c))" using c by (simp add: in_cardsForRank)
    ultimately have "c \<in> set (cardsForRank (formed ?s ?rs) (Rank c))" by simp
    then show "c \<in> set (formed ?s ?rs)" using in_cardsForRank by blast
  qed
  moreover have "set (formed ?s ?rs) \<subseteq> set cs" using in_formed by fastforce
  ultimately show ?thesis by (simp add: paddedCards_eq len)
qed

lemma realCards_short:
  assumes "length cs \<le> 4" "\<forall>c\<in>set cs. \<not> isBlankRank (Rank c)"
  shows "length (realCards (paddedCards cs opts)) = length cs
         \<and> set (realCards (paddedCards cs opts)) = set cs"
proof -
  let ?s = "sortDesc (\<lambda>c. activeIndex opts (Rank c)) cs"
  let ?rs = "sortDesc (activeIndex opts) allRanks"
  have len: "length (formed ?s ?rs) = length cs"
    using length_formed_eq [OF ranks_distinct, of ?s opts] assms
    by (simp add: ranks_set)
  then have "take (length cs) (paddedCards cs opts) = formed ?s ?rs"
    by (simp add: paddedCards_eq)
  with paddedCards_real [OF assms, of opts] len show ?thesis
    by (simp add: realCards_padded)
qed

lemma handForFiveCards_short:
  assumes "length cs \<le> 4" "handForFiveCards cs opts = Inr h"
  shows "Cards h = paddedCards cs opts"
proof -
  have "length cs \<le> 5" using assms(1) by simp
  from handForFiveCards_Cards [OF this assms(2)] formCards_short [OF assms(1), of opts]
  show ?thesis by simp
qed

subsection \<open>The combinations are the sublists of the right length\<close>

lemma combsOf_complete: "ys \<in> set (subseqs xs) \<Longrightarrow> ys \<in> set (combsOf xs (length ys))"
proof (induction xs arbitrary: ys)
  case Nil
  then show ?case by simp
next
  case (Cons x xs)
  from Cons.prems consider ys' where "ys = x # ys'" "ys' \<in> set (subseqs xs)"
    | "ys \<in> set (subseqs xs)"
    by (auto simp: Let_def)
  then show ?case
  proof cases
    case 1
    with Cons.IH [of ys'] show ?thesis by simp
  next
    case 2
    from Cons.IH [OF 2] have "ys \<in> set (combsOf xs (length ys))" .
    then show ?thesis by (cases "length ys") simp_all
  qed
qed

lemma Nil_subseqs: "[] \<in> set (subseqs xs)"
  by (induction xs) (simp_all add: Let_def)

lemma combsOf_sound: "c \<in> set (combsOf xs k) \<Longrightarrow> c \<in> set (subseqs xs)"
proof (induction xs k arbitrary: c rule: combsOf.induct)
  case (1 xs)
  then show ?case by (simp add: Nil_subseqs)
next
  case (2 k)
  then show ?case by simp
next
  case (3 x xs k)
  from "3.prems" consider c' where "c = x # c'" "c' \<in> set (combsOf xs k)"
    | "c \<in> set (combsOf xs (Suc k))"
    by auto
  then show ?case
  proof cases
    case 1
    with "3.IH"(1) [of c'] show ?thesis by (simp add: Let_def)
  next
    case 2
    with "3.IH"(2) [of c] show ?thesis by (simp add: Let_def)
  qed
qed

lemma map_combsOf: "map (map f) (combsOf xs k) = combsOf (map f xs) k"
proof (induction xs k rule: combsOf.induct)
  case (1 xs)
  show ?case by simp
next
  case (2 k)
  show ?case by simp
next
  case (3 x xs k)
  have "map (map f) (map ((#) x) (combsOf xs k)) =
        map ((#) (f x)) (map (map f) (combsOf xs k))"
    by (simp add: comp_def)
  with 3 show ?case by simp
qed

lemma cardCombos_combsOf: "cardCombos cards = combsOf cards (min 5 (length cards))"
proof -
  have "map (\<lambda>combo. map (\<lambda>i. cards ! i) combo) (combsOf [0..<length cards] k) =
        combsOf cards k" for k
    using map_combsOf [of "\<lambda>i. cards ! i" "[0..<length cards]" k] by (simp add: map_nth)
  then show ?thesis
    by (simp add: cardCombos_def combinations_def Let_def min_def)
qed

lemma set_cardCombos:
  "c \<in> set (cardCombos cards) \<longleftrightarrow>
   c \<in> set (subseqs cards) \<and> length c = min 5 (length cards)"
proof
  assume "c \<in> set (cardCombos cards)"
  then have "c \<in> set (combsOf cards (min 5 (length cards)))"
    by (simp only: cardCombos_combsOf)
  from combsOf_sound [OF this] combsOf_member [OF this]
  show "c \<in> set (subseqs cards) \<and> length c = min 5 (length cards)" by simp
next
  assume "c \<in> set (subseqs cards) \<and> length c = min 5 (length cards)"
  with combsOf_complete [of c cards] show "c \<in> set (cardCombos cards)"
    by (simp only: cardCombos_combsOf)
qed

subsection \<open>The hand selected, when every combination is classified\<close>

text \<open>
  When no combination runs into the panic of \<^verbatim>\<open>handForFiveCards\<close> (as when the two
  ignore flags agree), \<^verbatim>\<open>NewHandWithOptions\<close> returns the hand of one combination, and
  this hand compares \<open>\<ge> 0\<close> (\<open>\<le> 0\<close> for \<^verbatim>\<open>Low\<close>) with the hand of every combination: of
  every sublist of \<open>min 5 (length cards)\<close> cards of the input.
\<close>

lemma NewHandWithOptions_extreme_of_cardCombos:
  assumes "cards \<noteq> []"
    and "IgnoreStraights opts = IgnoreFlushes opts \<or>
         (\<forall>c\<in>set (cardCombos cards). handForFiveCards c opts \<noteq> Inl ShouldNeverGetHere)"
  shows "\<exists>h. NewHandWithOptions cards opts = Inr h
           \<and> (\<exists>c\<in>set (cardCombos cards). handForFiveCards c opts = Inr h)
           \<and> (\<forall>c\<in>set (cardCombos cards). \<exists>h' n.
                 handForFiveCards c opts = Inr h' \<and> CompareTo h h' = Inr n
                 \<and> (if Sorting opts = Low then n \<le> 0 else 0 \<le> n))"
proof -
  have np: "\<forall>c\<in>set (cardCombos cards). handForFiveCards c opts \<noteq> Inl ShouldNeverGetHere"
    using assms(2) flags_no_panic by blast
  obtain hands where hands: "handsFor (cardCombos cards) opts = Inr hands"
    using NewHandWithOptions_total [OF np] by blast
  have l2: "list_all2 (\<lambda>c h. handForFiveCards c opts = Inr h) (cardCombos cards) hands"
    by (rule handsFor_Inr [OF hands])
  obtain h where h: "NewHandWithOptions cards opts = Inr h" "h \<in> set hands"
    and ext: "\<forall>x\<in>set hands. if Sorting opts = Low then specCompare IndexOf h x \<le> 0
                                else 0 \<le> specCompare IndexOf h x"
    using NewHandWithOptions_selected [OF hands] by blast
  have from_combo: "\<exists>c\<in>set (cardCombos cards). handForFiveCards c opts = Inr x"
    if "x \<in> set hands" for x
  proof -
    from that obtain i where i: "i < length hands" "x = hands ! i"
      by (auto simp: in_set_conv_nth)
    with l2 have "cardCombos cards ! i \<in> set (cardCombos cards)"
      "handForFiveCards (cardCombos cards ! i) opts = Inr x"
      by (auto simp: list_all2_conv_all_nth)
    then show ?thesis by blast
  qed
  have five: "length (Cards x) = 5" if "x \<in> set hands" for x
  proof -
    from from_combo [OF that] obtain c where
      "c \<in> set (cardCombos cards)" "handForFiveCards c opts = Inr x" by blast
    then show ?thesis
      using handForFiveCards_Cards [of c opts x] cardCombos_member [of c cards] by simp
  qed
  have all: "\<exists>h' n. handForFiveCards c opts = Inr h' \<and> CompareTo h h' = Inr n
          \<and> (if Sorting opts = Low then n \<le> 0 else 0 \<le> n)"
    if c: "c \<in> set (cardCombos cards)" for c
  proof -
    from c obtain i where i: "i < length (cardCombos cards)" "c = cardCombos cards ! i"
      by (auto simp: in_set_conv_nth)
    with l2 have h': "handForFiveCards c opts = Inr (hands ! i)" "hands ! i \<in> set hands"
      by (auto simp: list_all2_conv_all_nth)
    have "CompareTo h (hands ! i) = Inr (specCompare IndexOf h (hands ! i))"
      by (rule CompareTo_specCompare) (simp_all add: five h(2) h'(2))
    moreover have "if Sorting opts = Low then specCompare IndexOf h (hands ! i) \<le> 0
                   else 0 \<le> specCompare IndexOf h (hands ! i)"
      using ext h'(2) by (rule bspec)
    ultimately show ?thesis using h'(1) by blast
  qed
  from all have "\<forall>c\<in>set (cardCombos cards). \<exists>h' n.
      handForFiveCards c opts = Inr h' \<and> CompareTo h h' = Inr n
      \<and> (if Sorting opts = Low then n \<le> 0 else 0 \<le> n)"
    by (rule ballI)
  with h(1) from_combo [OF h(2)] show ?thesis by (intro exI [of _ h] conjI)
qed

lemma NewHandWithOptions_selects_extreme:
  assumes "cards \<noteq> []"
    and "IgnoreStraights opts = IgnoreFlushes opts \<or>
         (\<forall>c\<in>set (cardCombos cards). handForFiveCards c opts \<noteq> Inl ShouldNeverGetHere)"
  shows "\<exists>h. NewHandWithOptions cards opts = Inr h
           \<and> (\<exists>c. c \<in> set (subseqs cards) \<and> length c = min 5 (length cards)
                  \<and> handForFiveCards c opts = Inr h)
           \<and> (\<forall>c. c \<in> set (subseqs cards) \<and> length c = min 5 (length cards) \<longrightarrow>
                 (\<exists>h' n. handForFiveCards c opts = Inr h' \<and> CompareTo h h' = Inr n
                    \<and> (if Sorting opts = Low then n \<le> 0 else 0 \<le> n)))"
proof -
  from NewHandWithOptions_extreme_of_cardCombos [OF assms]
  obtain h where h: "NewHandWithOptions cards opts = Inr h"
    and ex: "\<exists>c\<in>set (cardCombos cards). handForFiveCards c opts = Inr h"
    and all: "\<forall>c\<in>set (cardCombos cards). \<exists>h' n.
                handForFiveCards c opts = Inr h' \<and> CompareTo h h' = Inr n
                \<and> (if Sorting opts = Low then n \<le> 0 else 0 \<le> n)"
    by blast
  from ex obtain c where "c \<in> set (cardCombos cards)" "handForFiveCards c opts = Inr h"
    by blast
  then have one: "\<exists>c. c \<in> set (subseqs cards) \<and> length c = min 5 (length cards)
                  \<and> handForFiveCards c opts = Inr h"
    unfolding set_cardCombos by blast
  have every: "\<exists>h' n. handForFiveCards c opts = Inr h' \<and> CompareTo h h' = Inr n
                    \<and> (if Sorting opts = Low then n \<le> 0 else 0 \<le> n)"
    if "c \<in> set (subseqs cards) \<and> length c = min 5 (length cards)" for c
    using all that [folded set_cardCombos] by (rule bspec)
  then have every': "\<forall>c. c \<in> set (subseqs cards) \<and> length c = min 5 (length cards) \<longrightarrow>
                 (\<exists>h' n. handForFiveCards c opts = Inr h' \<and> CompareTo h h' = Inr n
                    \<and> (if Sorting opts = Low then n \<le> 0 else 0 \<le> n))"
    by blast
  show ?thesis
    by (rule exI [of _ h], intro conjI) (fact h, fact one, fact every')
qed

subsection \<open>What the comparator computes\<close>

text \<open>
  On hands of five cards \<^verbatim>\<open>CompareTo\<close> returns the comparison of section 4.6 taken with
  the ace-high index \<^verbatim>\<open>IndexOf\<close>, whatever options the hands were built with; the suits
  never matter.
\<close>

lemma CompareTo_category_then_ace_high_index:
  assumes "length (Cards h) = 5" "length (Cards other) = 5"
  shows "CompareTo h other = Inr (specCompare IndexOf h other)
         \<and> (\<forall>h' other'. Ranking h' = Ranking h \<and> map Rank (Cards h') = map Rank (Cards h) \<and>
                Ranking other' = Ranking other \<and>
                map Rank (Cards other') = map Rank (Cards other) \<longrightarrow>
                CompareTo h' other' = CompareTo h other)"
proof (intro conjI allI impI)
  show c: "CompareTo h other = Inr (specCompare IndexOf h other)"
    by (rule CompareTo_specCompare [OF assms])
  fix h' other'
  assume eq: "Ranking h' = Ranking h \<and> map Rank (Cards h') = map Rank (Cards h) \<and>
              Ranking other' = Ranking other \<and> map Rank (Cards other') = map Rank (Cards other)"
  then have len: "length (Cards h') = 5" "length (Cards other') = 5"
    using assms map_eq_imp_length_eq by metis+
  have idx: "indices IndexOf x = indices IndexOf y"
    if "map Rank (Cards x) = map Rank (Cards y)" for x y
  proof -
    have "map IndexOf (take 5 (map Rank (Cards x))) = map IndexOf (take 5 (map Rank (Cards y)))"
      by (simp only: that)
    then show ?thesis by (simp add: indices_def take_map comp_def)
  qed
  from eq have r: "Ranking h' = Ranking h" "Ranking other' = Ranking other"
    and m: "map Rank (Cards h') = map Rank (Cards h)"
      "map Rank (Cards other') = map Rank (Cards other)"
    by blast+
  have "specCompare IndexOf h' other' = specCompare IndexOf h other"
    unfolding specCompare_def idx [OF m(1)] idx [OF m(2)] r ..
  with c CompareTo_specCompare [OF len] show "CompareTo h' other' = CompareTo h other"
    by simp
qed

section \<open>A straight flush with one of the two ignore flags\<close>

text \<open>
  C1 (the code departs from it): the claim is that exactly one of the ten predicates holds
  on every canonical hand, under any options, so that the panic of
  \<^verbatim>\<open>handForFiveCards\<close> cannot be reached. With \<^verbatim>\<open>IgnoreFlushes\<close> alone set, the
  straight flush nine to five of spades is canonical as it stands, each of the ten
  predicates is false on it, and \<^verbatim>\<open>handForFiveCards\<close> ends in the panic.
\<close>

theorem straight_flush_ignore_flushes_panics:
  "formCards [Card Nine Spades, Card Eight Spades, Card Seven Spades, Card Six Spades,
              Card Five Spades] (defaultOptions\<lparr>IgnoreFlushes := True\<rparr>) =
     Inr [Card Nine Spades, Card Eight Spades, Card Seven Spades, Card Six Spades,
          Card Five Spades]
   \<and> map (\<lambda>r. vFunc r [Card Nine Spades, Card Eight Spades, Card Seven Spades,
                        Card Six Spades, Card Five Spades]
                       (defaultOptions\<lparr>IgnoreFlushes := True\<rparr>)) rankings =
     replicate 10 (Inr False)
   \<and> handForFiveCards [Card Nine Spades, Card Eight Spades, Card Seven Spades,
                       Card Six Spades, Card Five Spades]
                      (defaultOptions\<lparr>IgnoreFlushes := True\<rparr>) =
     Inl ShouldNeverGetHere"
  by code_simp

text \<open>
  C2 (the code departs from it): the claim is that with \<^verbatim>\<open>IgnoreStraights\<close> every
  straight, straight flush and royal flush is classified as Flush or HighCard, and with
  \<^verbatim>\<open>IgnoreFlushes\<close> every flush, straight flush and royal flush as Straight or HighCard.
  With \<^verbatim>\<open>IgnoreStraights\<close> alone, the straight flush jack to seven of hearts and the
  royal flush of hearts get no category at all: the call panics. So does the royal flush
  with \<^verbatim>\<open>IgnoreFlushes\<close> alone.
\<close>

theorem straight_flush_one_flag_unclassified:
  "NewHandWithOptions [Card Jack Hearts, Card Ten Hearts, Card Nine Hearts,
                       Card Eight Hearts, Card Seven Hearts]
                      (defaultOptions\<lparr>IgnoreStraights := True\<rparr>) =
     Inl ShouldNeverGetHere
   \<and> NewHandWithOptions [Card Ace Hearts, Card King Hearts, Card Queen Hearts,
                         Card Jack Hearts, Card Ten Hearts]
                        (defaultOptions\<lparr>IgnoreStraights := True\<rparr>) =
     Inl ShouldNeverGetHere
   \<and> NewHandWithOptions [Card Ace Hearts, Card King Hearts, Card Queen Hearts,
                         Card Jack Hearts, Card Ten Hearts]
                        (defaultOptions\<lparr>IgnoreFlushes := True\<rparr>) =
     Inl ShouldNeverGetHere"
  by code_simp

section \<open>The selected hand\<close>

text \<open>
  C3 (the code departs from it): the claim has \<^verbatim>\<open>NewHandWithOptions\<close> return, for every
  input, a hand that is greater than or equal to the hand of every five-card combination
  (with \<^verbatim>\<open>Sorting = High\<close>), or a least one (with \<^verbatim>\<open>Sorting = Low\<close>). With
  \<^verbatim>\<open>IgnoreFlushes\<close> alone and the seven cards nine to five of spades, king of hearts,
  king of diamonds, no hand is returned at all: the first combination is the straight
  flush, it gets no category, and the call panics, with either sorting.
\<close>

theorem straight_flush_among_seven_panics:
  "Sorting (defaultOptions\<lparr>IgnoreFlushes := True\<rparr>) = High
   \<and> NewHandWithOptions
        [Card Nine Spades, Card Eight Spades, Card Seven Spades, Card Six Spades,
         Card Five Spades, Card King Hearts, Card King Diamonds]
        (defaultOptions\<lparr>IgnoreFlushes := True\<rparr>) = Inl ShouldNeverGetHere
   \<and> NewHandWithOptions
        [Card Nine Spades, Card Eight Spades, Card Seven Spades, Card Six Spades,
         Card Five Spades, Card King Hearts, Card King Diamonds]
        (defaultOptions\<lparr>Sorting := Low, IgnoreFlushes := True\<rparr>) = Inl ShouldNeverGetHere
   \<and> hd (cardCombos
        [Card Nine Spades, Card Eight Spades, Card Seven Spades, Card Six Spades,
         Card Five Spades, Card King Hearts, Card King Diamonds]) =
       [Card Nine Spades, Card Eight Spades, Card Seven Spades, Card Six Spades,
        Card Five Spades]
   \<and> handForFiveCards
        [Card Nine Spades, Card Eight Spades, Card Seven Spades, Card King Hearts,
         Card King Diamonds]
        (defaultOptions\<lparr>IgnoreFlushes := True\<rparr>) =
       Inr (Hand PairR [Card King Hearts, Card King Diamonds, Card Nine Spades,
                        Card Eight Spades, Card Seven Spades] ''pair of kings'')"
  by code_simp

section \<open>What the comparator compares\<close>

text \<open>
  C4 (the code departs from it): the claim has \<^verbatim>\<open>CompareTo\<close> compare the cards by rank
  index under the currently active ace ordering, so that the result is positive exactly
  when the first hand is the stronger one. \<^verbatim>\<open>formCards\<close> follows \<^verbatim>\<open>AceIsLow\<close>, but
  \<^verbatim>\<open>CompareTo\<close> reads the ace-high \<^verbatim>\<open>IndexOf\<close> whatever the options were. Under
  \<^verbatim>\<open>AceIsLow\<close> the hands of K Q J 9 A and of K Q J 9 2 are both HighCard and differ in the
  last card only; the ace is the lower card in the active ordering (the comparison of
  section 4.6 by the ace-low index is negative), and \<^verbatim>\<open>CompareTo\<close> returns 12. The
  selection goes wrong with it: of the six cards A A 2 2 3 4, with \<^verbatim>\<open>Sorting = Low\<close>,
  \<^verbatim>\<open>AceIsLow\<close> and both ignore flags, \<^verbatim>\<open>NewHandWithOptions\<close> returns the pair of twos,
  although the pair of aces, the hand of another combination, is the lower hand in the
  active ordering.
\<close>

theorem CompareTo_ignores_AceIsLow:
  "NewHandWithOptions [Card King Spades, Card Queen Hearts, Card Jack Diamonds,
                       Card Nine Clubs, Card Ace Spades]
                      (defaultOptions\<lparr>AceIsLow := True\<rparr>) =
     Inr (Hand HighCard [Card King Spades, Card Queen Hearts, Card Jack Diamonds,
                         Card Nine Clubs, Card Ace Spades] ''high card king high'')
   \<and> NewHandWithOptions [Card King Spades, Card Queen Hearts, Card Jack Diamonds,
                         Card Nine Clubs, Card Two Spades]
                        (defaultOptions\<lparr>AceIsLow := True\<rparr>) =
     Inr (Hand HighCard [Card King Spades, Card Queen Hearts, Card Jack Diamonds,
                         Card Nine Clubs, Card Two Spades] ''high card king high'')
   \<and> CompareTo
        (Hand HighCard [Card King Spades, Card Queen Hearts, Card Jack Diamonds,
                        Card Nine Clubs, Card Ace Spades] ''high card king high'')
        (Hand HighCard [Card King Spades, Card Queen Hearts, Card Jack Diamonds,
                        Card Nine Clubs, Card Two Spades] ''high card king high'') = Inr 12
   \<and> specCompare (activeIndex (defaultOptions\<lparr>AceIsLow := True\<rparr>))
        (Hand HighCard [Card King Spades, Card Queen Hearts, Card Jack Diamonds,
                        Card Nine Clubs, Card Ace Spades] ''high card king high'')
        (Hand HighCard [Card King Spades, Card Queen Hearts, Card Jack Diamonds,
                        Card Nine Clubs, Card Two Spades] ''high card king high'') = - 1
   \<and> NewHandWithOptions
        [Card Ace Spades, Card Ace Hearts, Card Two Clubs, Card Two Diamonds,
         Card Three Spades, Card Four Hearts]
        \<lparr>Sorting = Low, IgnoreStraights = True, IgnoreFlushes = True, AceIsLow = True\<rparr> =
       Inr (Hand PairR [Card Two Clubs, Card Two Diamonds, Card Four Hearts,
                        Card Three Spades, Card Ace Spades] ''pair of twos'')
   \<and> handForFiveCards
        [Card Ace Spades, Card Ace Hearts, Card Two Clubs, Card Three Spades, Card Four Hearts]
        \<lparr>Sorting = Low, IgnoreStraights = True, IgnoreFlushes = True, AceIsLow = True\<rparr> =
       Inr (Hand PairR [Card Ace Spades, Card Ace Hearts, Card Four Hearts,
                        Card Three Spades, Card Two Clubs] ''pair of aces'')
   \<and> specCompare
        (activeIndex
           \<lparr>Sorting = Low, IgnoreStraights = True, IgnoreFlushes = True, AceIsLow = True\<rparr>)
        (Hand PairR [Card Ace Spades, Card Ace Hearts, Card Four Hearts,
                     Card Three Spades, Card Two Clubs] ''pair of aces'')
        (Hand PairR [Card Two Clubs, Card Two Diamonds, Card Four Hearts,
                     Card Three Spades, Card Ace Spades] ''pair of twos'') = - 1
   \<and> CompareTo
        (Hand PairR [Card Ace Spades, Card Ace Hearts, Card Four Hearts,
                     Card Three Spades, Card Two Clubs] ''pair of aces'')
        (Hand PairR [Card Two Clubs, Card Two Diamonds, Card Four Hearts,
                     Card Three Spades, Card Ace Spades] ''pair of twos'') = Inr 12"
  by code_simp

section \<open>Inputs of fewer than five cards\<close>

text \<open>
  C5, as stated, fails: the claim gives every input of two to four cards the category
  HighCard. The two aces of spades and hearts are padded with three blanks and the hand
  is a Pair: the pair predicates count ranks, and a blank only adds a rank of its own.
\<close>

theorem two_aces_are_a_pair:
  "length [Card Ace Spades, Card Ace Hearts] = 2
   \<and> NewHand [Card Ace Spades, Card Ace Hearts] =
       Inr (Hand PairR [Card Ace Spades, Card Ace Hearts, blankCard 1, blankCard 2, blankCard 3]
              ''pair of aces'')
   \<and> PairR \<noteq> HighCard"
  by code_simp

text \<open>
  C5, amended: for every input of one to four cards (two to four in particular)
  \<^verbatim>\<open>NewHand\<close> returns a hand of five cards that holds a blank; its category is HighCard,
  Pair, TwoPair, ThreeOfAKind or FourOfAKind, and it is HighCard when no two cards of the
  input share a rank. When no card of the input is itself a blank, the category is
  HighCard only then, the first places of the hand hold the cards of the input and the
  places after them the blanks \<^verbatim>\<open>?1\<close>, \<^verbatim>\<open>?2\<close>, ... up to five cards.
\<close>

theorem NewHand_short_input:
  assumes "cards \<noteq> []" "length cards \<le> 4"
  shows "\<exists>h. NewHand cards = Inr h \<and> length (Cards h) = 5 \<and> hasBlankCards (Cards h)
           \<and> Ranking h \<in> {HighCard, PairR, TwoPair, ThreeOfAKind, FourOfAKind}
           \<and> (distinct (map Rank cards) \<longrightarrow> Ranking h = HighCard)
           \<and> ((\<forall>c\<in>set cards. \<not> isBlankRank (Rank c)) \<longrightarrow>
                 (Ranking h = HighCard \<longleftrightarrow> distinct (map Rank cards))
                 \<and> set (take (length cards) (Cards h)) = set cards
                 \<and> drop (length cards) (Cards h) = blanks (5 - length cards))"
proof -
  define P where "P = paddedCards cards defaultOptions"
  have len5: "length cards \<le> 5" using assms(2) by simp
  have form: "formCards cards defaultOptions = Inr P"
    unfolding P_def by (rule formCards_short [OF assms(2)])
  have lenP: "length P = 5" unfolding P_def by (rule length_paddedCards [OF len5])
  have bl: "hasBlankCards P" and last1: "last (signature P) = 1"
    unfolding P_def using paddedCards_has_blank [OF assms(2)] by simp_all
  have sg: "signature P \<in> set signatures"
    unfolding P_def by (rule signature_paddedCards [OF len5])
  obtain a b c d e where abc: "P = [a, b, c, d, e]" using length_five [OF lenP] by blast
  from firstRanking_blank [OF sg [unfolded abc] bl [unfolded abc], of defaultOptions]
  obtain h where h: "firstRanking rankings P defaultOptions = Inr h"
    and rk: "Ranking h =
       (if signature P = [1, 1, 1, 1, 1] then HighCard
        else if signature P = [2, 2, 1, 1, 1] then PairR
        else if signature P = [2, 2, 2, 2, 1] then TwoPair
        else if signature P = [3, 3, 3, 1, 1] then ThreeOfAKind
        else if signature P = [3, 3, 3, 2, 2] then FullHouse
        else FourOfAKind)"
    unfolding abc by blast
  have cards_h: "Cards h = P" by (rule firstRanking_Cards [OF h])
  have new: "NewHand cards = Inr h"
    by (simp add: NewHand_def NewHandWithOptions_short [OF len5] handForFiveCards_def form h)
  have nofull: "signature P \<noteq> [3, 3, 3, 2, 2]" using last1 by auto
  have cat: "Ranking h \<in> {HighCard, PairR, TwoPair, ThreeOfAKind, FourOfAKind}"
    using rk nofull by simp
  have high_iff: "Ranking h = HighCard \<longleftrightarrow> signature P = [1, 1, 1, 1, 1]"
    using rk by simp
  have d1: "Ranking h = HighCard" if "distinct (map Rank cards)"
    using signature_distinct [OF len5 that, of defaultOptions] high_iff by (simp add: P_def)
  have d2: "distinct (map Rank cards)"
    if "\<forall>c\<in>set cards. \<not> isBlankRank (Rank c)" "Ranking h = HighCard"
    using signature_repeated [OF assms(2) _ that(1), of defaultOptions] that(2) high_iff
    by (auto simp: P_def)
  have real: "set (take (length cards) P) = set cards"
    "drop (length cards) P = blanks (5 - length cards)"
    if "\<forall>c\<in>set cards. \<not> isBlankRank (Rank c)"
    using paddedCards_real [OF assms(2) that, of defaultOptions] by (simp_all add: P_def)
  show ?thesis
  proof (intro exI [of _ h] conjI impI)
    show "NewHand cards = Inr h" by (rule new)
    show "length (Cards h) = 5" by (simp add: cards_h lenP)
    show "hasBlankCards (Cards h)" by (simp add: cards_h bl)
    show "Ranking h \<in> {HighCard, PairR, TwoPair, ThreeOfAKind, FourOfAKind}" by (rule cat)
    show "Ranking h = HighCard" if "distinct (map Rank cards)" by (rule d1 [OF that])
    show "(Ranking h = HighCard) = distinct (map Rank cards)"
      if "\<forall>c\<in>set cards. \<not> isBlankRank (Rank c)"
      using d1 d2 [OF that] by blast
    show "set (take (length cards) (Cards h)) = set cards"
      if "\<forall>c\<in>set cards. \<not> isBlankRank (Rank c)"
      by (simp add: cards_h real(1) [OF that])
    show "drop (length cards) (Cards h) = blanks (5 - length cards)"
      if "\<forall>c\<in>set cards. \<not> isBlankRank (Rank c)"
      by (simp add: cards_h real(2) [OF that])
  qed
qed

theorem NewHand_short_input_witness:
  "[Card Nine Hearts, Card King Spades, Card Two Diamonds] \<noteq> []
   \<and> length [Card Nine Hearts, Card King Spades, Card Two Diamonds] \<le> 4
   \<and> distinct (map Rank [Card Nine Hearts, Card King Spades, Card Two Diamonds])
   \<and> NewHand [Card Nine Hearts, Card King Spades, Card Two Diamonds] =
       Inr (Hand HighCard [Card King Spades, Card Nine Hearts, Card Two Diamonds,
                           blankCard 1, blankCard 2] ''high card king high'')"
proof -
  have ne: "[Card Nine Hearts, Card King Spades, Card Two Diamonds] \<noteq> []"
    and le: "length [Card Nine Hearts, Card King Spades, Card Two Diamonds] \<le> 4"
    and d: "distinct (map Rank [Card Nine Hearts, Card King Spades, Card Two Diamonds])"
    by simp_all
  have e: "NewHand [Card Nine Hearts, Card King Spades, Card Two Diamonds] =
       Inr (Hand HighCard [Card King Spades, Card Nine Hearts, Card Two Diamonds,
                           blankCard 1, blankCard 2] ''high card king high'')"
    by code_simp
  from NewHand_short_input [OF ne le] d e
  have "Ranking (Hand HighCard [Card King Spades, Card Nine Hearts, Card Two Diamonds,
                                blankCard 1, blankCard 2] ''high card king high'') = HighCard"
    by auto
  with ne le d e show ?thesis by blast
qed

section \<open>The wheel straight, evaluated\<close>

text \<open>
  C6: evaluating exactly the five cards ace of spades, two of hearts, three of diamonds,
  four of clubs, five of spades under the default options gives a hand of category
  Straight, whose cards are five, four, three, two, ace in this order (the ace moved to
  the last place by the wheel fix-up), described as "straight five high".
\<close>

theorem wheel_straight_hand:
  "NewHand [Card Ace Spades, Card Two Hearts, Card Three Diamonds, Card Four Clubs,
            Card Five Spades] =
   Inr (Hand Straight
          [Card Five Spades, Card Four Clubs, Card Three Diamonds, Card Two Hearts,
           Card Ace Spades]
          ''straight five high'')"
  by code_simp

section \<open>The comparator is an order on hand values\<close>

text \<open>
  C7: on hands of five cards, \<^verbatim>\<open>a.CompareTo(b)\<close> and \<^verbatim>\<open>b.CompareTo(a)\<close> are each
  other's negation, so they have opposite signs and are zero together; the result is
  zero exactly when the two hands have the same category and the same rank indices; and
  if \<^verbatim>\<open>a.CompareTo(b) > 0\<close> and \<^verbatim>\<open>b.CompareTo(c) > 0\<close> then \<^verbatim>\<open>a.CompareTo(c) > 0\<close>.
  No call panics.
\<close>

theorem CompareTo_total_order:
  assumes "length (Cards a) = 5" "length (Cards b) = 5" "length (Cards c) = 5"
  shows "\<exists>x y z. CompareTo a b = Inr x \<and> CompareTo b a = Inr (- x)
           \<and> CompareTo b c = Inr y \<and> CompareTo a c = Inr z
           \<and> (0 < x \<and> 0 < y \<longrightarrow> 0 < z)
           \<and> (x = 0 \<longleftrightarrow> Ranking a = Ranking b \<and> indices IndexOf a = indices IndexOf b)"
proof -
  have zero: "specCompare IndexOf a b = 0 \<longleftrightarrow>
              Ranking a = Ranking b \<and> indices IndexOf a = indices IndexOf b"
    using firstDifference_zero [of "indices IndexOf a" "indices IndexOf b"]
    by (simp add: specCompare_def length_indices assms)
  show ?thesis
    using specCompare_trans_gt [OF assms, of IndexOf] zero
    by (simp add: CompareTo_specCompare assms specCompare_neg [of IndexOf b a])
qed

theorem CompareTo_total_order_witness:
  "CompareTo (Hand Straight [Card Five Spades, Card Four Clubs, Card Three Diamonds,
                             Card Two Hearts, Card Ace Spades] ''straight five high'')
             (Hand PairR [Card King Spades, Card King Hearts, Card Ace Spades,
                          Card Five Spades, Card Four Clubs] ''pair of kings'') = Inr 3
   \<and> CompareTo (Hand PairR [Card King Spades, Card King Hearts, Card Ace Spades,
                          Card Five Spades, Card Four Clubs] ''pair of kings'')
               (Hand Straight [Card Five Spades, Card Four Clubs, Card Three Diamonds,
                             Card Two Hearts, Card Ace Spades] ''straight five high'') = Inr (- 3)
   \<and> CompareTo (Hand PairR [Card King Spades, Card King Hearts, Card Ace Spades,
                          Card Five Spades, Card Four Clubs] ''pair of kings'')
               (Hand PairR [Card King Diamonds, Card King Clubs, Card Ace Hearts,
                          Card Five Hearts, Card Three Clubs] ''pair of kings'') = Inr 1
   \<and> CompareTo (Hand Straight [Card Five Spades, Card Four Clubs, Card Three Diamonds,
                             Card Two Hearts, Card Ace Spades] ''straight five high'')
               (Hand PairR [Card King Diamonds, Card King Clubs, Card Ace Hearts,
                          Card Five Hearts, Card Three Clubs] ''pair of kings'') = Inr 3"
  using CompareTo_total_order
    [of "Hand Straight [Card Five Spades, Card Four Clubs, Card Three Diamonds,
                        Card Two Hearts, Card Ace Spades] ''straight five high''"
        "Hand PairR [Card King Spades, Card King Hearts, Card Ace Spades,
                     Card Five Spades, Card Four Clubs] ''pair of kings''"
        "Hand PairR [Card King Diamonds, Card King Clubs, Card Ace Hearts,
                     Card Five Hearts, Card Three Clubs] ''pair of kings''"]
  by (simp add: CompareTo_def Let_def)

section \<open>The cards of the returned hand are in canonical order\<close>

text \<open>
  C8: for every non-empty input the hand that \<^verbatim>\<open>NewHandWithOptions\<close> returns has exactly
  five cards, in canonical order up to the wheel fix-up: the cards that are not blank
  come first and are cards of the input, grouped by rank, the groups in the order of
  their size from the largest, groups of one size in the order of the active rank index
  from the highest; the blanks \<^verbatim>\<open>?1\<close>, \<^verbatim>\<open>?2\<close>, ... follow and fill the hand to five. When
  fewer than five cards are supplied, none of them a blank, all of them are in the hand,
  so that the blanks are as many as the cards missing. A hand is returned whenever the
  two ignore flags agree.
\<close>

theorem NewHandWithOptions_canonical:
  assumes "cards \<noteq> []"
  shows "(IgnoreStraights opts = IgnoreFlushes opts \<longrightarrow>
            (\<exists>h. NewHandWithOptions cards opts = Inr h))
         \<and> (\<forall>h. NewHandWithOptions cards opts = Inr h \<longrightarrow>
               length (Cards h) = 5 \<and> canonicalUpToWheel (activeIndex opts) (Cards h)
               \<and> set (realCards (Cards h)) \<subseteq> set cards)
         \<and> (\<forall>h. NewHandWithOptions cards opts = Inr h \<and> length cards \<le> 4 \<and>
                 (\<forall>c\<in>set cards. \<not> isBlankRank (Rank c)) \<longrightarrow>
               length (realCards (Cards h)) = length cards
               \<and> set (realCards (Cards h)) = set cards)"
proof (intro conjI allI impI)
  assume "IgnoreStraights opts = IgnoreFlushes opts"
  from NewHandWithOptions_total [OF flags_no_panic [OF this], of cards]
  obtain hands where "handsFor (cardCombos cards) opts = Inr hands" by blast
  from NewHandWithOptions_selected [OF this]
  show "\<exists>h. NewHandWithOptions cards opts = Inr h" by blast
next
  fix h assume "NewHandWithOptions cards opts = Inr h"
  from NewHandWithOptions_from_combo [OF this] obtain c where
    c: "c \<in> set (cardCombos cards)" "handForFiveCards c opts = Inr h" by blast
  from cardCombos_member [OF c(1)] have "length c \<le> 5" "set c \<subseteq> set cards" by simp_all
  with handForFiveCards_canonical [OF _ c(2)]
  show "length (Cards h) = 5" "canonicalUpToWheel (activeIndex opts) (Cards h)"
    "set (realCards (Cards h)) \<subseteq> set cards"
    by auto
next
  fix h
  assume a: "NewHandWithOptions cards opts = Inr h \<and> length cards \<le> 4 \<and>
             (\<forall>c\<in>set cards. \<not> isBlankRank (Rank c))"
  then have le: "length cards \<le> 4" and real: "\<forall>c\<in>set cards. \<not> isBlankRank (Rank c)"
    by simp_all
  have "length cards \<le> 5" using le by simp
  from NewHandWithOptions_short [OF this, of opts] a
  have "handForFiveCards cards opts = Inr h" by simp
  from handForFiveCards_short [OF le this] realCards_short [OF le real, of opts]
  show "length (realCards (Cards h)) = length cards" "set (realCards (Cards h)) = set cards"
    by simp_all
qed

theorem NewHandWithOptions_canonical_witness:
  "[Card Two Hearts, Card King Spades, Card Nine Clubs, Card King Hearts, Card Two Clubs,
    Card Ace Diamonds] \<noteq> []
   \<and> NewHandWithOptions
        [Card Two Hearts, Card King Spades, Card Nine Clubs, Card King Hearts, Card Two Clubs,
         Card Ace Diamonds] defaultOptions =
      Inr (Hand TwoPair [Card King Spades, Card King Hearts, Card Two Hearts, Card Two Clubs,
                         Card Ace Diamonds] ''two pair kings and twos'')
   \<and> canonicalUpToWheel (activeIndex defaultOptions)
        [Card King Spades, Card King Hearts, Card Two Hearts, Card Two Clubs, Card Ace Diamonds]"
proof -
  have ne: "[Card Two Hearts, Card King Spades, Card Nine Clubs, Card King Hearts,
             Card Two Clubs, Card Ace Diamonds] \<noteq> []"
    by simp
  have e: "NewHandWithOptions
        [Card Two Hearts, Card King Spades, Card Nine Clubs, Card King Hearts, Card Two Clubs,
         Card Ace Diamonds] defaultOptions =
      Inr (Hand TwoPair [Card King Spades, Card King Hearts, Card Two Hearts, Card Two Clubs,
                         Card Ace Diamonds] ''two pair kings and twos'')"
    by code_simp
  from NewHandWithOptions_canonical [OF ne, of defaultOptions] e
  have "canonicalUpToWheel (activeIndex defaultOptions)
          (Cards (Hand TwoPair [Card King Spades, Card King Hearts, Card Two Hearts,
                                Card Two Clubs, Card Ace Diamonds] ''two pair kings and twos''))"
    by blast
  with ne e show ?thesis by simp
qed

section \<open>Blank cards and the predicates\<close>

text \<open>
  C9: a blank card never satisfies the flush, straight or pair predicates. Whenever one
  of the cards is a blank, \<^verbatim>\<open>hasFlush\<close> and \<^verbatim>\<open>hasStraight\<close> return false; and in the
  cards that \<^verbatim>\<open>formCards\<close> makes of at most five cards every blank has a rank of its own,
  so that the count \<^verbatim>\<open>hasPairs\<close> takes at its position is exactly 1.
\<close>

theorem blank_cards_never_match:
  "((\<exists>c\<in>set cards. isBlankRank (Rank c)) \<longrightarrow>
      hasBlankCards cards \<and> hasFlush cards = Inr False \<and> hasStraight cards = Inr False)
   \<and> (length cs \<le> 5 \<longrightarrow>
        (\<exists>F. formCards cs opts = Inr F \<and>
           (\<forall>c\<in>set F. isBlankRank (Rank c) \<longrightarrow> length (cardsForRank F (Rank c)) = 1)))"
  using formCards_blank_count [of cs opts]
  by (auto simp: hasBlankCards_iff hasFlush_def hasStraight_def)

theorem blank_cards_never_match_witness:
  "(\<exists>c\<in>set [Card Ace Spades, Card King Spades, blankCard 1, blankCard 2, blankCard 3].
       isBlankRank (Rank c))
   \<and> hasFlush [Card Ace Spades, Card King Spades, blankCard 1, blankCard 2, blankCard 3]
       = Inr False
   \<and> hasStraight [Card Ace Spades, Card King Spades, blankCard 1, blankCard 2, blankCard 3]
       = Inr False
   \<and> length [Card King Spades, Card Ace Spades] \<le> 5
   \<and> formCards [Card King Spades, Card Ace Spades] defaultOptions =
       Inr [Card Ace Spades, Card King Spades, blankCard 1, blankCard 2, blankCard 3]
   \<and> map (\<lambda>c. length (cardsForRank
                [Card Ace Spades, Card King Spades, blankCard 1, blankCard 2, blankCard 3]
                (Rank c))) [blankCard 1, blankCard 2, blankCard 3] = [1, 1, 1]"
proof -
  have b: "\<exists>c\<in>set [Card Ace Spades, Card King Spades, blankCard 1, blankCard 2, blankCard 3].
             isBlankRank (Rank c)"
    by (simp add: blankCard_def)
  have f: "formCards [Card King Spades, Card Ace Spades] defaultOptions =
       Inr [Card Ace Spades, Card King Spades, blankCard 1, blankCard 2, blankCard 3]"
    by code_simp
  have l: "length [Card King Spades, Card Ace Spades] \<le> 5" by simp
  from blank_cards_never_match
    [of "[Card Ace Spades, Card King Spades, blankCard 1, blankCard 2, blankCard 3]"
        "[Card King Spades, Card Ace Spades]" defaultOptions] b l
  have "hasFlush [Card Ace Spades, Card King Spades, blankCard 1, blankCard 2, blankCard 3]
          = Inr False
      \<and> hasStraight [Card Ace Spades, Card King Spades, blankCard 1, blankCard 2, blankCard 3]
          = Inr False
      \<and> (\<exists>F. formCards [Card King Spades, Card Ace Spades] defaultOptions = Inr F \<and>
           (\<forall>c\<in>set F. isBlankRank (Rank c) \<longrightarrow> length (cardsForRank F (Rank c)) = 1))"
    by blast
  with b f l show ?thesis by (simp add: blankCard_def)
qed

section \<open>Reading a hand from JSON leaves the receiver as it was\<close>

text \<open>
  C10, as stated, fails: the claim has \<^verbatim>\<open>UnmarshalJSON\<close> return nil for every byte
  sequence that parses as valid JSON. The text \<^verbatim>\<open>[1,2]\<close> is valid JSON, but no object:
  \<^verbatim>\<open>json.Unmarshal\<close> returns an error and \<^verbatim>\<open>UnmarshalJSON\<close> returns it. The text
  \<^verbatim>\<open>{"cards":[null]}\<close> is valid JSON and is decoded without error, to one nil card:
  \<^verbatim>\<open>NewHand\<close> panics on it and nothing is returned.
\<close>

theorem UnmarshalJSON_valid_JSON_not_nil:
  "UnmarshalJSON ((=) ''cards'') Inl [Hand HighCard [] ''''] 0
     (Some (JArray [JNumber ''1'', JNumber ''2''])) =
   Inr ([Hand HighCard [] ''''], 0, Some UnmarshalError)
   \<and> UnmarshalJSON ((=) ''cards'') Inl [Hand HighCard [] ''''] 0
       (Some (JObject [(''cards'', JArray [JNull])])) =
     Inl NilDereference"
  by code_simp

text \<open>
  C10, amended: whenever \<^verbatim>\<open>UnmarshalJSON\<close> returns, every hand that was there before the
  call, the receiver's among them, has the ranking, the cards and the description it
  had: the hand built from the decoded cards is a new one, only the method's own copy of
  the receiver pointer is set to it, and so a hand that was marshalled before is not
  restored into the receiver. The call returns the error of \<^verbatim>\<open>json.Unmarshal\<close> when
  there is one (for bytes that are not JSON, and for JSON that does not fit), and nil
  when \<^verbatim>\<open>json.Unmarshal\<close> succeeds with at least one card and no nil card.
\<close>

theorem UnmarshalJSON_receiver_unchanged:
  assumes "h < length store"
  shows "(\<forall>store' h' err. UnmarshalJSON keyIsCards cardOf store h b = Inr (store', h', err) \<longrightarrow>
            store' ! h = store ! h \<and> take (length store) store' = store)
         \<and> (\<forall>e. jsonUnmarshal keyIsCards cardOf b = Inl e \<longrightarrow>
               UnmarshalJSON keyIsCards cardOf store h b = Inr (store, h, Some e))
         \<and> (\<forall>mCards cards.
               jsonUnmarshal keyIsCards cardOf b = Inr mCards \<and> pointees mCards = Inr cards \<and>
               cards \<noteq> [] \<longrightarrow>
               (\<exists>hand. NewHand cards = Inr hand \<and>
                  UnmarshalJSON keyIsCards cardOf store h b =
                  Inr (store @ [hand], length store, None)))"
proof (intro conjI allI impI)
  fix store' h' err
  assume r: "UnmarshalJSON keyIsCards cardOf store h b = Inr (store', h', err)"
  have "store' = store \<or> (\<exists>hand. store' = store @ [hand])"
    using r
    by (auto simp: UnmarshalJSON_def andThen_def Let_def split: sum.splits)
  with assms show "store' ! h = store ! h" "take (length store) store' = store"
    by (auto simp: nth_append)
next
  fix e assume "jsonUnmarshal keyIsCards cardOf b = Inl e"
  then show "UnmarshalJSON keyIsCards cardOf store h b = Inr (store, h, Some e)"
    by (simp add: UnmarshalJSON_def)
next
  fix mCards cards
  assume a: "jsonUnmarshal keyIsCards cardOf b = Inr mCards \<and> pointees mCards = Inr cards \<and>
             cards \<noteq> []"
  obtain hand where "NewHand cards = Inr hand" using NewHand_total by blast
  with a show "\<exists>hand. NewHand cards = Inr hand \<and>
                  UnmarshalJSON keyIsCards cardOf store h b =
                  Inr (store @ [hand], length store, None)"
    by (simp add: UnmarshalJSON_def Let_def)
qed

theorem UnmarshalJSON_receiver_unchanged_witness:
  "(0::nat) < length [Hand HighCard [] '''']
   \<and> UnmarshalJSON ((=) ''cards'')
        (\<lambda>v. if v = JString ''As'' then Inr (Card Ace Spades)
              else if v = JString ''Ks'' then Inr (Card King Spades) else Inl v)
        [Hand HighCard [] ''''] 0
        (Some (JObject [(''cards'', JArray [JString ''As'', JString ''Ks''])])) =
      Inr ([Hand HighCard [] '''',
            Hand HighCard [Card Ace Spades, Card King Spades, blankCard 1, blankCard 2,
                           blankCard 3] ''high card ace high''],
           1, None)
   \<and> [Hand HighCard [] '''',
       Hand HighCard [Card Ace Spades, Card King Spades, blankCard 1, blankCard 2,
                      blankCard 3] ''high card ace high''] ! 0 =
      [Hand HighCard [] ''''] ! 0"
proof -
  have l: "(0::nat) < length [Hand HighCard [] '''']" by simp
  have e: "UnmarshalJSON ((=) ''cards'')
        (\<lambda>v. if v = JString ''As'' then Inr (Card Ace Spades)
              else if v = JString ''Ks'' then Inr (Card King Spades) else Inl v)
        [Hand HighCard [] ''''] 0
        (Some (JObject [(''cards'', JArray [JString ''As'', JString ''Ks''])])) =
      Inr ([Hand HighCard [] '''',
            Hand HighCard [Card Ace Spades, Card King Spades, blankCard 1, blankCard 2,
                           blankCard 3] ''high card ace high''],
           1, None)"
    by code_simp
  from UnmarshalJSON_receiver_unchanged [OF l] e
  have "[Hand HighCard [] '''',
         Hand HighCard [Card Ace Spades, Card King Spades, blankCard 1, blankCard 2,
                        blankCard 3] ''high card ace high''] ! 0 =
        [Hand HighCard [] ''''] ! 0"
    by blast
  with l e show ?thesis by blast
qed

end
